theory Spec2Isabelle
  imports Main "HOL-Library.Word"
begin

unbundle bit_operations_syntax

chapter \<open>The model\<close>

section \<open>Failure modes\<close>

text \<open>
  The Go code halts in two ways that matter here: \<open>expect\<close> panics with a fixed message when
  its argument is false, and the runtime panics on a slice index that is out of range. Both are
  values of the model; a function that can halt returns \<open>error + 'a\<close>.
\<close>

datatype error = ExpectFailed | IndexOutOfRange | NilDereference | DivideByZero | HostFailure

definition expect :: "bool \<Rightarrow> error + unit" where
  "expect x = (if \<not> x then Inl ExpectFailed else Inr ())"

section \<open>Integers and the helpers of helpers.go\<close>

text \<open>
  Go's \<open>int\<close> is modelled as \<open>int\<close>. Where the source computes with \<open>+\<close>, \<open>-\<close>, \<open>*\<close>,
  \<open>/\<close> or \<open>++\<close> on a value of type \<open>int\<close>, the 64-bit two's complement wrap-around is
  written out with \<open>wrap64\<close>; comparisons, and the positions in a slice that a loop runs
  through, need no wrapping.
\<close>

definition wrap64 :: "int \<Rightarrow> int" where
  "wrap64 x = (x + 2 ^ 63) mod 2 ^ 64 - 2 ^ 63"

definition add64 :: "int \<Rightarrow> int \<Rightarrow> int" where
  "add64 a b = wrap64 (a + b)"

definition sub64 :: "int \<Rightarrow> int \<Rightarrow> int" where
  "sub64 a b = wrap64 (a - b)"

definition mul64 :: "int \<Rightarrow> int \<Rightarrow> int" where
  "mul64 a b = wrap64 (a * b)"

text \<open>Go's integer division truncates towards zero and panics on a zero divisor.\<close>

definition quo64 :: "int \<Rightarrow> int \<Rightarrow> int" where
  "quo64 a b = wrap64 (sgn a * sgn b * (\<bar>a\<bar> div \<bar>b\<bar>))"

definition div64 :: "int \<Rightarrow> int \<Rightarrow> error + int" where
  "div64 a b = (if b = 0 then Inl DivideByZero else Inr (quo64 a b))"

definition min_go :: "int \<Rightarrow> int \<Rightarrow> int" where
  "min_go a b = (if a < b then a else b)"

definition max_go :: "int \<Rightarrow> int \<Rightarrow> int" where
  "max_go a b = (if a > b then a else b)"

definition clamp :: "int \<Rightarrow> int \<Rightarrow> int \<Rightarrow> int" where
  "clamp x a b = min_go b (max_go a x)"

section \<open>Geometry: the parts of Go's image package the code uses\<close>

record Point =
  X :: int
  Y :: int

record Rectangle =
  MinPt :: Point
  MaxPt :: Point

definition Pt :: "int \<Rightarrow> int \<Rightarrow> Point" where
  "Pt x y = \<lparr>X = x, Y = y\<rparr>"

definition ZR :: Rectangle where
  "ZR = \<lparr>MinPt = Pt 0 0, MaxPt = Pt 0 0\<rparr>"

text \<open>\<open>image.Rect\<close> swaps the coordinates where needed so that the result is well formed.\<close>

definition Rect :: "int \<Rightarrow> int \<Rightarrow> int \<Rightarrow> int \<Rightarrow> Rectangle" where
  "Rect x0 y0 x1 y1 =
     \<lparr>MinPt = Pt (if x0 > x1 then x1 else x0) (if y0 > y1 then y1 else y0),
      MaxPt = Pt (if x0 > x1 then x0 else x1) (if y0 > y1 then y0 else y1)\<rparr>"

definition Dx :: "Rectangle \<Rightarrow> int" where
  "Dx r = sub64 (X (MaxPt r)) (X (MinPt r))"

definition Dy :: "Rectangle \<Rightarrow> int" where
  "Dy r = sub64 (Y (MaxPt r)) (Y (MinPt r))"

definition Empty :: "Rectangle \<Rightarrow> bool" where
  "Empty r \<longleftrightarrow> X (MinPt r) \<ge> X (MaxPt r) \<or> Y (MinPt r) \<ge> Y (MaxPt r)"

definition Intersect :: "Rectangle \<Rightarrow> Rectangle \<Rightarrow> Rectangle" where
  "Intersect r s =
     (let r1 = \<lparr>MinPt = Pt (if X (MinPt r) < X (MinPt s) then X (MinPt s) else X (MinPt r))
                            (if Y (MinPt r) < Y (MinPt s) then Y (MinPt s) else Y (MinPt r)),
                MaxPt = Pt (if X (MaxPt r) > X (MaxPt s) then X (MaxPt s) else X (MaxPt r))
                            (if Y (MaxPt r) > Y (MaxPt s) then Y (MaxPt s) else Y (MaxPt r))\<rparr>
      in if Empty r1 then ZR else r1)"

definition PtIn :: "Point \<Rightarrow> Rectangle \<Rightarrow> bool" where
  "PtIn p r \<longleftrightarrow>
     X (MinPt r) \<le> X p \<and> X p < X (MaxPt r) \<and> Y (MinPt r) \<le> Y p \<and> Y p < Y (MaxPt r)"

definition RectIn :: "Rectangle \<Rightarrow> Rectangle \<Rightarrow> bool" where
  "RectIn r s \<longleftrightarrow>
     (if Empty r then True
      else X (MinPt s) \<le> X (MinPt r) \<and> X (MaxPt r) \<le> X (MaxPt s) \<and>
           Y (MinPt s) \<le> Y (MinPt r) \<and> Y (MaxPt r) \<le> Y (MaxPt s))"

definition RectAdd :: "Rectangle \<Rightarrow> Point \<Rightarrow> Rectangle" where
  "RectAdd r p =
     \<lparr>MinPt = Pt (add64 (X (MinPt r)) (X p)) (add64 (Y (MinPt r)) (Y p)),
      MaxPt = Pt (add64 (X (MaxPt r)) (X p)) (add64 (Y (MaxPt r)) (Y p))\<rparr>"

section \<open>Identities and the FNV-1a hash\<close>

type_synonym ID = "64 word"

type_synonym byte = "8 word"

text \<open>The loop of \<open>fnv1a\<close>, with its index \<open>i\<close> running up to the length of the data.\<close>

function fnv1a_loop :: "ID \<Rightarrow> byte list \<Rightarrow> nat \<Rightarrow> ID" where
  "fnv1a_loop h data i =
     (if i < length data
      then fnv1a_loop ((h XOR ucast (data ! i)) * 1099511628211) data (i + 1)
      else h)"
  by pat_completeness auto
termination
  by (relation "measure (\<lambda>(h, data, i). length data - i)") auto

declare fnv1a_loop.simps [simp del]

definition fnv1a :: "ID \<Rightarrow> byte list \<Rightarrow> ID" where
  "fnv1a init data = fnv1a_loop init data 0"

definition hashInitial :: ID where
  "hashInitial = 14695981039346656037"

section \<open>Constants declared outside the two source files\<close>

text \<open>
  Modelled from the spec: the option, response, mouse and key flags and the colour roles are
  declared in a file that is not part of the sources at hand. The spec calls them bitsets whose
  bit assignment is an implementation choice; each flag is given one bit of its own here, in the
  order in which the spec lists them. The theorems need no more than that a flag is a single bit.
\<close>

type_synonym Option = int
type_synonym Response = int

definition OptAlignCenter :: Option where "OptAlignCenter = 1"
definition OptAlignRight :: Option where "OptAlignRight = 2"
definition OptNoInteract :: Option where "OptNoInteract = 4"
definition OptNoFrame :: Option where "OptNoFrame = 8"
definition OptNoResize :: Option where "OptNoResize = 16"
definition OptNoScroll :: Option where "OptNoScroll = 32"
definition OptNoClose :: Option where "OptNoClose = 64"
definition OptNoTitle :: Option where "OptNoTitle = 128"
definition OptHoldFocus :: Option where "OptHoldFocus = 256"
definition OptAutoSize :: Option where "OptAutoSize = 512"
definition OptPopup :: Option where "OptPopup = 1024"
definition OptClosed :: Option where "OptClosed = 2048"
definition OptExpanded :: Option where "OptExpanded = 4096"

definition ResponseActive :: Response where "ResponseActive = 1"
definition ResponseSubmit :: Response where "ResponseSubmit = 2"
definition ResponseChange :: Response where "ResponseChange = 4"

definition mouseLeft :: int where "mouseLeft = 1"

definition keyShift :: int where "keyShift = 1"
definition keyBackspace :: int where "keyBackspace = 8"
definition keyReturn :: int where "keyReturn = 16"

definition ColorText :: int where "ColorText = 0"
definition ColorWindowBG :: int where "ColorWindowBG = 2"
definition ColorTitleBG :: int where "ColorTitleBG = 3"
definition ColorTitleText :: int where "ColorTitleText = 4"
definition ColorPanelBG :: int where "ColorPanelBG = 5"
definition ColorButton :: int where "ColorButton = 6"
definition ColorButtonHover :: int where "ColorButtonHover = 7"
definition ColorBase :: int where "ColorBase = 9"
definition ColorScrollBase :: int where "ColorScrollBase = 12"
definition ColorScrollThumb :: int where "ColorScrollThumb = 13"

text \<open>
  Modelled from the spec: the capacity of the command buffer, whose overflow the spec names as
  a fatal condition. The theorems hold for every positive capacity.
\<close>

definition commandListSize :: int where
  "commandListSize = 262144"

section \<open>The data model\<close>

type_synonym Color = "32 word"

record Container =
  Rect_of :: Rectangle
  Body :: Rectangle
  ContentSize :: Point
  Scroll :: Point
  ZIndex :: int
  Open :: bool
  HeadIdx :: int
  TailIdx :: int

text \<open>The zero value \<open>Container{}\<close>.\<close>

definition zeroContainer :: Container where
  "zeroContainer =
     \<lparr>Rect_of = ZR, Body = ZR, ContentSize = Pt 0 0, Scroll = Pt 0 0, ZIndex = 0,
      Open = False, HeadIdx = 0, TailIdx = 0\<rparr>"

text \<open>
  Modelled from the spec: a slot-pool entry is an identity and the tick of its last use, and
  the zero value means that the slot is empty.
\<close>

record poolItem =
  pool_id :: ID
  lastUpdate :: int

text \<open>
  A layout record. The source reads and writes three of its fields (\<open>body\<close>, \<open>max\<close> and
  \<open>indent\<close>); the rest belongs to the layout engine, which is not part of the sources at hand.
\<close>

record layout =
  body :: Rectangle
  max_of :: Point
  indent :: int

text \<open>
  The entries of the command buffer. A command is a struct with a type tag, the destination
  index of a jump and a payload. The primitives are the four draw operations of the spec; a
  jump has no payload.
\<close>

datatype commandType = commandJump | commandClip | commandRect | commandText | commandIcon

datatype prim =
    PrimClip Rectangle
  | PrimRect Rectangle Color
  | PrimText string Point Color
  | PrimIcon int Rectangle Color

record command =
  cmd_typ :: commandType
  dstIdx :: int
  payload :: "prim option"

record Style =
  Padding :: int
  Indent :: int
  TitleHeight :: int
  ScrollbarSize :: int
  ThumbSize :: int
  Colors :: "int \<Rightarrow> Color"

text \<open>
  The context. A \<open>*Container\<close> always points into the fixed array \<open>c.containers\<close>, so a
  pointer is the index of its slot, \<open>nil\<close> is \<open>None\<close>, and the array is a store from slots to
  records through which every alias sees the same container. Slices keep the order of the
  source: the top of a stack is its last element.
\<close>

record Context =
  LastID :: ID
  idStack :: "ID list"
  clipStack :: "Rectangle list"
  containerStack :: "nat list"
  layoutStack :: "layout list"
  rootList :: "nat list"
  commandList :: "command list"
  containerPool :: "poolItem list"
  containers :: "nat \<Rightarrow> Container"
  lastZIndex :: int
  tick :: int
  focus :: ID
  hover :: ID
  keepFocus :: bool
  hoverRoot :: "nat option"
  nextHoverRoot :: "nat option"
  scrollTarget :: "nat option"
  mousePos :: Point
  lastMousePos :: Point
  mouseDelta :: Point
  scrollDelta :: Point
  mouseDown :: int
  mousePressed :: int
  keyDown :: int
  keyPressed :: int
  textInput :: string
  numberEdit :: ID
  numberEditBuf :: string
  Style_of :: Style

section \<open>Identity, id stack and clip stack (helpers.go)\<close>

definition ctx_id :: "byte list \<Rightarrow> Context \<Rightarrow> ID \<times> Context" where
  "ctx_id data c =
     (let init = (if length (idStack c) > 0 then idStack c ! (length (idStack c) - 1)
                  else hashInitial);
          i = fnv1a init data
      in (i, c\<lparr>LastID := i\<rparr>))"

definition pushID :: "byte list \<Rightarrow> Context \<Rightarrow> ID \<times> Context" where
  "pushID data c =
     (case ctx_id data c of (i, c1) \<Rightarrow> (i, c1\<lparr>idStack := idStack c1 @ [i]\<rparr>))"

definition popID :: "Context \<Rightarrow> error + Context" where
  "popID c =
     (if idStack c = [] then Inl IndexOutOfRange
      else Inr (c\<lparr>idStack := take (length (idStack c) - 1) (idStack c)\<rparr>))"

definition clipRect :: "Context \<Rightarrow> error + Rectangle" where
  "clipRect c =
     (if clipStack c = [] then Inl IndexOutOfRange
      else Inr (clipStack c ! (length (clipStack c) - 1)))"

definition pushClipRect :: "Rectangle \<Rightarrow> Context \<Rightarrow> error + Context" where
  "pushClipRect rect c =
     (case clipRect c of
        Inl e \<Rightarrow> Inl e
      | Inr lst \<Rightarrow> Inr (c\<lparr>clipStack := clipStack c @ [Intersect rect lst]\<rparr>))"

definition popClipRect :: "Context \<Rightarrow> error + Context" where
  "popClipRect c =
     (if clipStack c = [] then Inl IndexOutOfRange
      else Inr (c\<lparr>clipStack := take (length (clipStack c) - 1) (clipStack c)\<rparr>))"

definition bringToFront :: "nat \<Rightarrow> Context \<Rightarrow> Context" where
  "bringToFront cnt c =
     (let z = add64 (lastZIndex c) 1
      in c\<lparr>lastZIndex := z, containers := (containers c)(cnt := (containers c cnt)\<lparr>ZIndex := z\<rparr>)\<rparr>)"

definition SetFocus :: "ID \<Rightarrow> Context \<Rightarrow> Context" where
  "SetFocus i c = c\<lparr>focus := i, keepFocus := True\<rparr>"

section \<open>A context to evaluate on\<close>

text \<open>The context before the first frame: every stack empty, every slot zero.\<close>

definition style0 :: Style where
  "style0 =
     \<lparr>Padding = 5, Indent = 24, TitleHeight = 24, ScrollbarSize = 12, ThumbSize = 8,
      Colors = (\<lambda>_. 0)\<rparr>"

definition ctx0 :: Context where
  "ctx0 =
     \<lparr>LastID = 0, idStack = [], clipStack = [], containerStack = [], layoutStack = [],
      rootList = [], commandList = [], containerPool = replicate 4 \<lparr>pool_id = 0, lastUpdate = 0\<rparr>,
      containers = (\<lambda>_. zeroContainer), lastZIndex = 0, tick = 0, focus = 0, hover = 0,
      keepFocus = False, hoverRoot = None, nextHoverRoot = None, scrollTarget = None,
      mousePos = Pt 0 0, lastMousePos = Pt 0 0, mouseDelta = Pt 0 0, scrollDelta = Pt 0 0,
      mouseDown = 0, mousePressed = 0, keyDown = 0, keyPressed = 0, textInput = [],
      numberEdit = 0, numberEditBuf = [], Style_of = style0\<rparr>"

section \<open>The hash in the spec's words\<close>

text \<open>
  The hash as the spec words it: starting from the seed, each byte is folded in by an XOR
  followed by a multiplication with the FNV prime, in 64-bit arithmetic. The scope of a call is
  the top of the id stack, or the offset basis when the stack is empty.
\<close>

definition fnv1a_spec :: "ID \<Rightarrow> byte list \<Rightarrow> ID" where
  "fnv1a_spec seed bytes = fold (\<lambda>b h. (h XOR ucast b) * 1099511628211) bytes seed"

definition id_scope :: "Context \<Rightarrow> ID" where
  "id_scope c = (if idStack c = [] then 14695981039346656037 else last (idStack c))"

section \<open>Hover and focus (controls.go)\<close>

text \<open>
  \<open>inHoverRoot\<close> walks the container stack from its top down to the first root container
  (the first one whose head index is set) and looks for the hover root on the way.
\<close>

fun inHoverRoot_loop :: "(nat \<Rightarrow> Container) \<Rightarrow> nat option \<Rightarrow> nat list \<Rightarrow> bool" where
  "inHoverRoot_loop cs hr [] = False"
| "inHoverRoot_loop cs hr (p # ps) =
     (if Some p = hr then True
      else if HeadIdx (cs p) \<ge> 0 then False
      else inHoverRoot_loop cs hr ps)"

definition inHoverRoot :: "Context \<Rightarrow> bool" where
  "inHoverRoot c = inHoverRoot_loop (containers c) (hoverRoot c) (rev (containerStack c))"

text \<open>
  \<open>mouseOver\<close> evaluates its conjunction from left to right, so the clip rectangle is read
  (and the read of an empty clip stack halts) only when the pointer is inside the rectangle.
\<close>

definition mouseOver :: "Rectangle \<Rightarrow> Context \<Rightarrow> error + bool" where
  "mouseOver rect c =
     (if \<not> PtIn (mousePos c) rect then Inr False
      else case clipRect c of
             Inl e \<Rightarrow> Inl e
           | Inr cr \<Rightarrow> Inr (PtIn (mousePos c) cr \<and> inHoverRoot c))"

definition updateControl :: "ID \<Rightarrow> Rectangle \<Rightarrow> Option \<Rightarrow> Context \<Rightarrow> error + Context" where
  "updateControl i rect opt c =
     (if i = 0 then Inr c
      else case mouseOver rect c of
        Inl e \<Rightarrow> Inl e
      | Inr mouseover \<Rightarrow>
          (let c1 = (if focus c = i then c\<lparr>keepFocus := True\<rparr> else c)
           in if (opt AND OptNoInteract) \<noteq> 0 then Inr c1
              else
                (let c2 = (if mouseover \<and> mouseDown c1 = 0 then c1\<lparr>hover := i\<rparr> else c1);
                     c3 = (if focus c2 = i
                           then (let c3a = (if mousePressed c2 \<noteq> 0 \<and> \<not> mouseover
                                            then SetFocus 0 c2 else c2)
                                 in if mouseDown c3a = 0 \<and> (NOT opt AND OptHoldFocus) \<noteq> 0
                                    then SetFocus 0 c3a else c3a)
                           else c2);
                     c4 = (if hover c3 = i
                           then (if mousePressed c3 \<noteq> 0 then SetFocus i c3
                                 else if \<not> mouseover then c3\<lparr>hover := 0\<rparr>
                                 else c3)
                           else c3)
                 in Inr c4)))"

section \<open>The slot pool and the container registry\<close>

text \<open>
  Modelled from the spec: the three pool operations are defined outside the sources at hand.
  \<open>poolGet\<close> returns the slot that holds the identity, or -1; \<open>poolUpdate\<close> refreshes the
  recency of a slot; \<open>poolInit\<close> takes the least recently touched slot (the first one among
  equals), assigns it the identity and touches it, and can fail only on a pool without slots.
\<close>

fun poolGet_from :: "nat \<Rightarrow> poolItem list \<Rightarrow> ID \<Rightarrow> int" where
  "poolGet_from i [] x = - 1"
| "poolGet_from i (p # ps) x = (if pool_id p = x then int i else poolGet_from (i + 1) ps x)"

definition poolGet :: "poolItem list \<Rightarrow> ID \<Rightarrow> int" where
  "poolGet items x = poolGet_from 0 items x"

definition poolUpdate :: "poolItem list \<Rightarrow> nat \<Rightarrow> int \<Rightarrow> poolItem list" where
  "poolUpdate items idx t = items[idx := (items ! idx)\<lparr>lastUpdate := t\<rparr>]"

fun oldest_from :: "nat \<Rightarrow> nat \<Rightarrow> int \<Rightarrow> poolItem list \<Rightarrow> nat" where
  "oldest_from i best t [] = best"
| "oldest_from i best t (p # ps) =
     (if lastUpdate p < t then oldest_from (i + 1) i (lastUpdate p) ps
      else oldest_from (i + 1) best t ps)"

definition poolInit :: "poolItem list \<Rightarrow> ID \<Rightarrow> int \<Rightarrow> error + nat \<times> poolItem list" where
  "poolInit items x t =
     (case items of
        [] \<Rightarrow> Inl ExpectFailed
      | p # ps \<Rightarrow>
          (let n = oldest_from 1 0 (lastUpdate p) ps
           in Inr (n, poolUpdate (items[n := (items ! n)\<lparr>pool_id := x\<rparr>]) n t)))"

definition container :: "ID \<Rightarrow> Option \<Rightarrow> Context \<Rightarrow> error + nat option \<times> Context" where
  "container i opt c =
     (let idx = poolGet (containerPool c) i
      in if idx \<ge> 0
         then Inr (Some (nat idx),
                   if Open (containers c (nat idx)) \<or> (NOT opt AND OptClosed) \<noteq> 0
                   then c\<lparr>containerPool := poolUpdate (containerPool c) (nat idx) (tick c)\<rparr>
                   else c)
         else if (opt AND OptClosed) \<noteq> 0 then Inr (None, c)
         else case poolInit (containerPool c) i (tick c) of
                Inl e \<Rightarrow> Inl e
              | Inr (n, pool) \<Rightarrow>
                  Inr (Some n,
                       bringToFront n
                         (c\<lparr>containerPool := pool,
                            containers := (containers c)
                              (n := zeroContainer\<lparr>HeadIdx := - 1, TailIdx := - 1, Open := True\<rparr>)\<rparr>)))"

section \<open>The end of a frame (helpers.go)\<close>

text \<open>
  A write to \<open>c.commandList[idx].jump.dstIdx\<close>: the index is a Go \<open>int\<close>, and an index
  outside the slice halts.
\<close>

definition set_dst :: "int \<Rightarrow> int \<Rightarrow> command list \<Rightarrow> error + command list" where
  "set_dst idx v cmds =
     (if 0 \<le> idx \<and> idx < int (length cmds)
      then Inr (cmds[nat idx := (cmds ! nat idx)\<lparr>dstIdx := v\<rparr>])
      else Inl IndexOutOfRange)"

text \<open>The branch \<open>i == 0\<close> of the patching loop.\<close>

definition patch_first :: "Container \<Rightarrow> command list \<Rightarrow> error + command list" where
  "patch_first cnt cmds =
     (if cmds = [] then Inl IndexOutOfRange
      else if cmd_typ (cmds ! 0) \<noteq> commandJump then Inl ExpectFailed
      else if \<not> add64 (HeadIdx cnt) 1 < commandListSize then Inl ExpectFailed
      else Inr (cmds[0 := (cmds ! 0)\<lparr>dstIdx := add64 (HeadIdx cnt) 1\<rparr>]))"

text \<open>
  The patching loop of \<open>end\<close>. It reads the sorted root containers (their head and tail
  indices do not change while it runs) and writes jump destinations into the command list.
\<close>

function patch_loop :: "Container list \<Rightarrow> nat \<Rightarrow> command list \<Rightarrow> error + command list" where
  "patch_loop roots i cmds =
     (if i < length roots
      then (let cnt = roots ! i
            in case (if i = 0 then patch_first cnt cmds
                     else set_dst (TailIdx (roots ! (i - 1))) (add64 (HeadIdx cnt) 1) cmds) of
                 Inl e \<Rightarrow> Inl e
               | Inr cmds1 \<Rightarrow>
                   (case (if i = length roots - 1
                          then set_dst (TailIdx cnt) (int (length cmds1)) cmds1
                          else Inr cmds1) of
                      Inl e \<Rightarrow> Inl e
                    | Inr cmds2 \<Rightarrow> patch_loop roots (i + 1) cmds2))
      else Inr cmds)"
  by pat_completeness auto
termination
  by (relation "measure (\<lambda>(roots, i, cmds). length roots - i)") auto

declare patch_loop.simps [simp del]

text \<open>
  Everything \<open>end\<close> does after its four stack checks, in two parts: the steps up to the sort
  of the root list, and the patching loop.
\<close>

definition end_before_patch :: "Context \<Rightarrow> Context" where
  "end_before_patch c =
     (let c1 = (case scrollTarget c of
                  None \<Rightarrow> c
                | Some t \<Rightarrow>
                    c\<lparr>containers := (containers c)
                         (t := (containers c t)
                            \<lparr>Scroll := Pt (add64 (X (Scroll (containers c t))) (X (scrollDelta c)))
                                          (add64 (Y (Scroll (containers c t))) (Y (scrollDelta c)))\<rparr>)\<rparr>);
          c2 = (if \<not> keepFocus c1 then c1\<lparr>focus := 0\<rparr> else c1);
          c3 = c2\<lparr>keepFocus := False\<rparr>;
          c4 = (case nextHoverRoot c3 of
                  None \<Rightarrow> c3
                | Some h \<Rightarrow>
                    if mousePressed c3 \<noteq> 0 \<and> ZIndex (containers c3 h) < lastZIndex c3 \<and>
                       ZIndex (containers c3 h) \<ge> 0
                    then bringToFront h c3 else c3);
          c5 = c4\<lparr>keyPressed := 0, textInput := [], mousePressed := 0,
                   scrollDelta := Pt 0 0, lastMousePos := mousePos c4\<rparr>
      in c5\<lparr>rootList := sort_key (\<lambda>p. ZIndex (containers c5 p)) (rootList c5)\<rparr>)"

definition end_steps :: "Context \<Rightarrow> error + Context" where
  "end_steps c =
     (let c6 = end_before_patch c
      in case patch_loop (map (containers c6) (rootList c6)) 0 (commandList c6) of
           Inl e \<Rightarrow> Inl e
         | Inr cmds \<Rightarrow> Inr (c6\<lparr>commandList := cmds\<rparr>))"

definition ctx_end :: "Context \<Rightarrow> error + Context" where
  "ctx_end c =
     (case expect (length (containerStack c) = 0) of
        Inl e \<Rightarrow> Inl e
      | Inr _ \<Rightarrow>
     (case expect (length (clipStack c) = 0) of
        Inl e \<Rightarrow> Inl e
      | Inr _ \<Rightarrow>
     (case expect (length (idStack c) = 0) of
        Inl e \<Rightarrow> Inl e
      | Inr _ \<Rightarrow>
     (case expect (length (layoutStack c) = 0) of
        Inl e \<Rightarrow> Inl e
      | Inr _ \<Rightarrow> end_steps c))))"

section \<open>Contexts used to evaluate the hover and registry properties\<close>

text \<open>
  A drag in progress: the control with identity 5 has hover and focus, the left button is held
  (it was pressed in an earlier frame) and the pointer has left the control's rectangle.
\<close>

definition dragCtx :: Context where
  "dragCtx = ctx0\<lparr>hover := 5, focus := 5, mouseDown := 1, mousePos := Pt 50 50\<rparr>"

text \<open>
  A registry that still holds the container of a popup that was closed: slot 1 of the pool
  carries identity 7 and the container in that slot is not open.
\<close>

definition closedPopupCtx :: Context where
  "closedPopupCtx =
     ctx0\<lparr>tick := 3,
          containerPool := [\<lparr>pool_id = 9, lastUpdate = 2\<rparr>, \<lparr>pool_id = 7, lastUpdate = 1\<rparr>],
          containers := (\<lambda>_. zeroContainer)(0 := zeroContainer\<lparr>Open := True\<rparr>)\<rparr>"

section \<open>Sequences of clip-stack operations\<close>

text \<open>
  Three operations change the clip stack between \<open>begin\<close> and \<open>end\<close>: \<open>pushClipRect\<close>,
  \<open>popClipRect\<close>, and the statement of \<open>window\<close> that appends \<open>unclippedRect\<close> to the stack
  directly. The value of \<open>unclippedRect\<close> is declared outside the sources at hand and is a
  parameter here.
\<close>

definition window_reset_clip :: "Rectangle \<Rightarrow> Context \<Rightarrow> Context" where
  "window_reset_clip unclipped c = c\<lparr>clipStack := clipStack c @ [unclipped]\<rparr>"

datatype clip_op = PushClipRect Rectangle | PopClipRect | WindowReset

text \<open>
  To speak about ``the rectangle supplied at its push'' a run records, next to the clip stack,
  what was supplied for each element: \<open>Some r\<close> for \<open>pushClipRect r\<close> and \<open>None\<close> for the
  direct append of \<open>window\<close>. The record is a ghost of the model and no part of the context.
\<close>

fun clip_step ::
  "Rectangle \<Rightarrow> clip_op \<Rightarrow> Context \<times> Rectangle option list
     \<Rightarrow> error + Context \<times> Rectangle option list" where
  "clip_step u (PushClipRect r) (c, g) =
     (case pushClipRect r c of Inl e \<Rightarrow> Inl e | Inr c1 \<Rightarrow> Inr (c1, g @ [Some r]))"
| "clip_step u PopClipRect (c, g) =
     (case popClipRect c of Inl e \<Rightarrow> Inl e | Inr c1 \<Rightarrow> Inr (c1, butlast g))"
| "clip_step u WindowReset (c, g) = Inr (window_reset_clip u c, g @ [None])"

fun clip_run ::
  "Rectangle \<Rightarrow> clip_op list \<Rightarrow> Context \<times> Rectangle option list
     \<Rightarrow> error + Context \<times> Rectangle option list" where
  "clip_run u [] s = Inr s"
| "clip_run u (x # xs) s =
     (case clip_step u x s of Inl e \<Rightarrow> Inl e | Inr s1 \<Rightarrow> clip_run u xs s1)"

text \<open>
  The invariant: an element pushed by \<open>pushClipRect\<close> is the intersection of the rectangle
  supplied with the element below it, and an element appended by \<open>window\<close> is \<open>unclippedRect\<close>.
\<close>

definition clip_inv :: "Rectangle \<Rightarrow> Rectangle list \<Rightarrow> Rectangle option list \<Rightarrow> bool" where
  "clip_inv u st g \<longleftrightarrow>
     length g = length st \<and>
     (\<forall>i < length st.
        case g ! i of
          None \<Rightarrow> st ! i = u
        | Some r \<Rightarrow> 0 < i \<and> st ! i = Intersect r (st ! (i - 1)))"

text \<open>The customary value of \<open>unclippedRect\<close>, for evaluation.\<close>

definition unclipped0 :: Rectangle where
  "unclipped0 = Rect 0 0 16777216 16777216"

section \<open>The collaborators outside the two source files\<close>

text \<open>
  Modelled from the spec: the layout engine's \<open>layoutNext\<close>, the four draw helpers and the text
  metrics are declared outside the sources at hand, and the spec treats them as collaborators
  behind an interface. They are parameters of the model. \<open>layoutNext\<close> works on the layout
  stack and yields the next rectangle; a draw helper reads the context and appends typed draw
  entries (never a jump) to the append-only command buffer; either may halt. The text metrics
  are pure functions that return pixel extents.
\<close>

datatype drawcall =
    DrawFrame Rectangle int
  | DrawRect Rectangle Color
  | DrawText string Point Color
  | DrawIcon int Rectangle Color

record env =
  layoutNext :: "Context \<Rightarrow> error + Rectangle \<times> layout list"
  render :: "drawcall \<Rightarrow> Context \<Rightarrow> error + prim list"
  textWidth :: "string \<Rightarrow> int"
  lineHeight :: int

fun prim_typ :: "prim \<Rightarrow> commandType" where
  "prim_typ (PrimClip r) = commandClip"
| "prim_typ (PrimRect r col) = commandRect"
| "prim_typ (PrimText s p col) = commandText"
| "prim_typ (PrimIcon i r col) = commandIcon"

definition prim_command :: "prim \<Rightarrow> command" where
  "prim_command p = \<lparr>cmd_typ = prim_typ p, dstIdx = 0, payload = Some p\<rparr>"

definition draw :: "env \<Rightarrow> drawcall \<Rightarrow> Context \<Rightarrow> error + Context" where
  "draw E d c =
     (case render E d c of
        Inl e \<Rightarrow> Inl e
      | Inr ps \<Rightarrow> Inr (c\<lparr>commandList := commandList c @ map prim_command ps\<rparr>))"

text \<open>The bytes of a Go string.\<close>

definition bytes_of :: "string \<Rightarrow> byte list" where
  "bytes_of s = map (\<lambda>ch. of_nat (of_char ch)) s"

section \<open>Controls (controls.go)\<close>

definition drawControlFrame ::
  "env \<Rightarrow> ID \<Rightarrow> Rectangle \<Rightarrow> int \<Rightarrow> Option \<Rightarrow> Context \<Rightarrow> error + Context" where
  "drawControlFrame E i rect colorid opt c =
     (if (opt AND OptNoFrame) \<noteq> 0 then Inr c
      else draw E (DrawFrame rect (if focus c = i then add64 colorid 2
                                   else if hover c = i then add64 colorid 1
                                   else colorid)) c)"

definition drawControlText ::
  "env \<Rightarrow> string \<Rightarrow> Rectangle \<Rightarrow> int \<Rightarrow> Option \<Rightarrow> Context \<Rightarrow> error + Context" where
  "drawControlText E str rect colorid opt c =
     (let tw = textWidth E str
      in case pushClipRect rect c of
           Inl e \<Rightarrow> Inl e
         | Inr c1 \<Rightarrow>
             (let py = add64 (Y (MinPt rect)) (quo64 (sub64 (Dy rect) (lineHeight E)) 2);
                  px = (if (opt AND OptAlignCenter) \<noteq> 0
                        then add64 (X (MinPt rect)) (quo64 (sub64 (Dx rect) tw) 2)
                        else if (opt AND OptAlignRight) \<noteq> 0
                        then sub64 (sub64 (add64 (X (MinPt rect)) (Dx rect)) tw)
                                   (Padding (Style_of c1))
                        else add64 (X (MinPt rect)) (Padding (Style_of c1)))
              in case draw E (DrawText str (Pt px py) (Colors (Style_of c1) colorid)) c1 of
                   Inl e \<Rightarrow> Inl e
                 | Inr c2 \<Rightarrow> popClipRect c2))"

definition Control ::
  "env \<Rightarrow> ID \<Rightarrow> Option \<Rightarrow> (Rectangle \<Rightarrow> Context \<Rightarrow> error + 'a) \<Rightarrow> Context \<Rightarrow> error + 'a" where
  "Control E i opt f c =
     (case layoutNext E c of
        Inl e \<Rightarrow> Inl e
      | Inr (r, ls) \<Rightarrow>
          (case updateControl i r opt (c\<lparr>layoutStack := ls\<rparr>) of
             Inl e \<Rightarrow> Inl e
           | Inr c1 \<Rightarrow> f r c1))"

text \<open>
  The buffer of a text box is reached through a pointer. The source passes two kinds of
  pointer: one to a string of the caller (\<open>textBoxEx\<close>) and one to the field
  \<open>c.numberEditBuf\<close> of the context (\<open>numberTextBox\<close>). A write through the second one changes
  the context.
\<close>

datatype bufptr = CallerBuf | NumberEditBufField

definition store_buf :: "bufptr \<Rightarrow> string \<Rightarrow> Context \<Rightarrow> Context" where
  "store_buf p s c = (case p of CallerBuf \<Rightarrow> c | NumberEditBufField \<Rightarrow> c\<lparr>numberEditBuf := s\<rparr>)"

text \<open>
  The closure of \<open>textBoxRaw\<close>, in its two parts: the handling of the keys, which runs when
  the text box has focus, and the drawing. The content of the buffer is passed in and returned,
  and is written through the pointer as well.
\<close>

definition textBoxRaw_input ::
  "bufptr \<Rightarrow> string \<Rightarrow> ID \<Rightarrow> Context \<Rightarrow> Response \<times> string \<times> Context" where
  "textBoxRaw_input bp buf i c =
     (if focus c = i
      then (let buflen = length buf;
                res1 = (if length (textInput c) > 0 then ResponseChange else 0);
                buf1 = (if length (textInput c) > 0 then buf @ textInput c else buf);
                res2 = (if (keyPressed c AND keyBackspace) \<noteq> 0 \<and> buflen > 0
                        then res1 OR ResponseChange else res1);
                buf2 = (if (keyPressed c AND keyBackspace) \<noteq> 0 \<and> buflen > 0
                        then take (buflen - 1) buf1 else buf1)
            in if (keyPressed c AND keyReturn) \<noteq> 0
               then (res2 OR ResponseSubmit, buf2, SetFocus 0 (store_buf bp buf2 c))
               else (res2, buf2, store_buf bp buf2 c))
      else (0, buf, c))"

definition textBoxRaw_draw ::
  "env \<Rightarrow> string \<Rightarrow> ID \<Rightarrow> Option \<Rightarrow> Rectangle \<Rightarrow> Context \<Rightarrow> error + Context" where
  "textBoxRaw_draw E buf i opt r c =
     (case drawControlFrame E i r ColorBase opt c of
        Inl e \<Rightarrow> Inl e
      | Inr c4 \<Rightarrow>
          (if focus c4 = i
           then (let color = Colors (Style_of c4) ColorText;
                     textw = textWidth E buf;
                     texth = lineHeight E;
                     ofx = sub64 (sub64 (sub64 (Dx r) (Padding (Style_of c4))) textw) 1;
                     textx = add64 (X (MinPt r)) (min_go ofx (Padding (Style_of c4)));
                     texty = add64 (Y (MinPt r)) (quo64 (sub64 (Dy r) texth) 2)
                 in case pushClipRect r c4 of
                      Inl e \<Rightarrow> Inl e
                    | Inr c5 \<Rightarrow>
                        (case draw E (DrawText buf (Pt textx texty) color) c5 of
                           Inl e \<Rightarrow> Inl e
                         | Inr c6 \<Rightarrow>
                             (case draw E (DrawRect (Rect (add64 textx textw) texty
                                                          (add64 (add64 textx textw) 1)
                                                          (add64 texty texth)) color) c6 of
                                Inl e \<Rightarrow> Inl e
                              | Inr c7 \<Rightarrow> popClipRect c7)))
           else drawControlText E buf r ColorText opt c4))"

definition textBoxRaw_body ::
  "env \<Rightarrow> bufptr \<Rightarrow> string \<Rightarrow> ID \<Rightarrow> Option \<Rightarrow> Rectangle \<Rightarrow> Context
     \<Rightarrow> error + Response \<times> string \<times> Context" where
  "textBoxRaw_body E bp buf i opt r c =
     (case textBoxRaw_input bp buf i c of
        (res, buf1, c1) \<Rightarrow>
          (case textBoxRaw_draw E buf1 i opt r c1 of
             Inl e \<Rightarrow> Inl e
           | Inr c2 \<Rightarrow> Inr (res, buf1, c2)))"

definition textBoxRaw ::
  "env \<Rightarrow> bufptr \<Rightarrow> string \<Rightarrow> ID \<Rightarrow> Option \<Rightarrow> Context
     \<Rightarrow> error + Response \<times> string \<times> Context" where
  "textBoxRaw E bp buf i opt c =
     Control E i (opt OR OptHoldFocus) (textBoxRaw_body E bp buf i opt) c"

text \<open>
  \<open>textBoxEx\<close> takes the identity from the bytes of the buffer's address, which are a
  parameter; its buffer is the caller's and no part of the context.
\<close>

definition textBoxEx ::
  "env \<Rightarrow> byte list \<Rightarrow> string \<Rightarrow> Option \<Rightarrow> Context \<Rightarrow> error + Response \<times> string \<times> Context" where
  "textBoxEx E addr buf opt c =
     (case ctx_id addr c of (i, c1) \<Rightarrow> textBoxRaw E CallerBuf buf i opt c1)"

text \<open>
  \<open>numberTextBox\<close>. The bound value is of type \<open>float64\<close>; the function only formats it,
  replaces it by the parsed number and replaces it by zero, so the model takes the type of
  values, \<open>fmt.Sprintf(realFmt, _)\<close> and \<open>strconv.ParseFloat(_, 32)\<close> as parameters. The parser
  returns a value and whether it failed (\<open>err != nil\<close>).
\<close>

definition numberTextBox_start :: "('f \<Rightarrow> string) \<Rightarrow> 'f \<Rightarrow> ID \<Rightarrow> Context \<Rightarrow> Context" where
  "numberTextBox_start fmt v i c =
     (if mousePressed c = mouseLeft \<and> (keyDown c AND keyShift) \<noteq> 0 \<and> hover c = i
      then c\<lparr>numberEdit := i, numberEditBuf := fmt v\<rparr> else c)"

definition numberTextBox ::
  "env \<Rightarrow> ('f \<Rightarrow> string) \<Rightarrow> (string \<Rightarrow> 'f \<times> bool) \<Rightarrow> 'f::zero \<Rightarrow> ID \<Rightarrow> Context
     \<Rightarrow> error + bool \<times> 'f \<times> Context" where
  "numberTextBox E fmt parse v i c =
     (let c1 = numberTextBox_start fmt v i c
      in if numberEdit c1 = i
         then (case textBoxRaw E NumberEditBufField (numberEditBuf c1) i 0 c1 of
                 Inl e \<Rightarrow> Inl e
               | Inr (res, buf, c2) \<Rightarrow>
                   if (res AND ResponseSubmit) \<noteq> 0 \<or> focus c2 \<noteq> i
                   then (case parse (numberEditBuf c2) of
                           (nval, err) \<Rightarrow>
                             Inr (True, (if err then 0 else nval), c2\<lparr>numberEdit := 0\<rparr>))
                   else Inr (True, v, c2))
         else Inr (False, v, c1))"

text \<open>The scrollbars of a container, one function per axis.\<close>

definition setScrollY :: "nat \<Rightarrow> int \<Rightarrow> Context \<Rightarrow> Context" where
  "setScrollY cnt v c =
     c\<lparr>containers := (containers c)
          (cnt := (containers c cnt)\<lparr>Scroll := (Scroll (containers c cnt))\<lparr>Y := v\<rparr>\<rparr>)\<rparr>"

definition setScrollX :: "nat \<Rightarrow> int \<Rightarrow> Context \<Rightarrow> Context" where
  "setScrollX cnt v c =
     c\<lparr>containers := (containers c)
          (cnt := (containers c cnt)\<lparr>Scroll := (Scroll (containers c cnt))\<lparr>X := v\<rparr>\<rparr>)\<rparr>"

definition scrollbarVertical ::
  "env \<Rightarrow> nat \<Rightarrow> Rectangle \<Rightarrow> Point \<Rightarrow> Context \<Rightarrow> error + Context" where
  "scrollbarVertical E cnt b cs c =
     (let maxscroll = sub64 (Y cs) (Dy b)
      in if maxscroll > 0 \<and> Dy b > 0
         then (case ctx_id (bytes_of (''!scrollbar'' @ ''y'')) c of
           (i, c1) \<Rightarrow>
             (let base0 = b\<lparr>MinPt := (MinPt b)\<lparr>X := X (MaxPt b)\<rparr>\<rparr>;
                  base = base0\<lparr>MaxPt := (MaxPt base0)
                            \<lparr>X := add64 (X (MinPt base0)) (ScrollbarSize (Style_of c1))\<rparr>\<rparr>
              in case updateControl i base 0 c1 of
                Inl e \<Rightarrow> Inl e
              | Inr c2 \<Rightarrow>
               (case (if focus c2 = i \<and> mouseDown c2 = mouseLeft
                      then (case div64 (mul64 (Y (mouseDelta c2)) (Y cs)) (Dy base) of
                              Inl e \<Rightarrow> Inl e
                            | Inr q \<Rightarrow>
                                Inr (setScrollY cnt (add64 (Y (Scroll (containers c2 cnt))) q) c2))
                      else Inr c2) of
                  Inl e \<Rightarrow> Inl e
                | Inr c3 \<Rightarrow>
                 (let c4 = setScrollY cnt (clamp (Y (Scroll (containers c3 cnt))) 0 maxscroll) c3
                  in case draw E (DrawFrame base ColorScrollBase) c4 of
                    Inl e \<Rightarrow> Inl e
                  | Inr c5 \<Rightarrow>
                   (case div64 (mul64 (Dy base) (Dy b)) (Y cs) of
                      Inl e \<Rightarrow> Inl e
                    | Inr q1 \<Rightarrow>
                     (let thumb0 = base\<lparr>MaxPt := (MaxPt base)
                            \<lparr>Y := add64 (Y (MinPt base)) (max_go (ThumbSize (Style_of c5)) q1)\<rparr>\<rparr>
                      in case div64 (mul64 (Y (Scroll (containers c5 cnt)))
                                           (sub64 (Dy base) (Dy thumb0))) maxscroll of
                        Inl e \<Rightarrow> Inl e
                      | Inr q2 \<Rightarrow>
                       (case draw E (DrawFrame (RectAdd thumb0 (Pt 0 q2)) ColorScrollThumb) c5 of
                          Inl e \<Rightarrow> Inl e
                        | Inr c6 \<Rightarrow>
                         (case mouseOver b c6 of
                            Inl e \<Rightarrow> Inl e
                          | Inr over \<Rightarrow>
                              Inr (if over then c6\<lparr>scrollTarget := Some cnt\<rparr> else c6)))))))))
         else Inr (setScrollY cnt 0 c))"

definition scrollbarHorizontal ::
  "env \<Rightarrow> nat \<Rightarrow> Rectangle \<Rightarrow> Point \<Rightarrow> Context \<Rightarrow> error + Context" where
  "scrollbarHorizontal E cnt b cs c =
     (let maxscroll = sub64 (X cs) (Dx b)
      in if maxscroll > 0 \<and> Dx b > 0
         then (case ctx_id (bytes_of (''!scrollbar'' @ ''x'')) c of
           (i, c1) \<Rightarrow>
             (let base0 = b\<lparr>MinPt := (MinPt b)\<lparr>Y := Y (MaxPt b)\<rparr>\<rparr>;
                  base = base0\<lparr>MaxPt := (MaxPt base0)
                            \<lparr>Y := add64 (Y (MinPt base0)) (ScrollbarSize (Style_of c1))\<rparr>\<rparr>
              in case updateControl i base 0 c1 of
                Inl e \<Rightarrow> Inl e
              | Inr c2 \<Rightarrow>
               (case (if focus c2 = i \<and> mouseDown c2 = mouseLeft
                      then (case div64 (mul64 (X (mouseDelta c2)) (X cs)) (Dx base) of
                              Inl e \<Rightarrow> Inl e
                            | Inr q \<Rightarrow>
                                Inr (setScrollX cnt (add64 (X (Scroll (containers c2 cnt))) q) c2))
                      else Inr c2) of
                  Inl e \<Rightarrow> Inl e
                | Inr c3 \<Rightarrow>
                 (let c4 = setScrollX cnt (clamp (X (Scroll (containers c3 cnt))) 0 maxscroll) c3
                  in case draw E (DrawFrame base ColorScrollBase) c4 of
                    Inl e \<Rightarrow> Inl e
                  | Inr c5 \<Rightarrow>
                   (case div64 (mul64 (Dx base) (Dx b)) (X cs) of
                      Inl e \<Rightarrow> Inl e
                    | Inr q1 \<Rightarrow>
                     (let thumb0 = base\<lparr>MaxPt := (MaxPt base)
                            \<lparr>X := add64 (X (MinPt base)) (max_go (ThumbSize (Style_of c5)) q1)\<rparr>\<rparr>
                      in case div64 (mul64 (X (Scroll (containers c5 cnt)))
                                           (sub64 (Dx base) (Dx thumb0))) maxscroll of
                        Inl e \<Rightarrow> Inl e
                      | Inr q2 \<Rightarrow>
                       (case draw E (DrawFrame (RectAdd thumb0 (Pt q2 0)) ColorScrollThumb) c5 of
                          Inl e \<Rightarrow> Inl e
                        | Inr c6 \<Rightarrow>
                         (case mouseOver b c6 of
                            Inl e \<Rightarrow> Inl e
                          | Inr over \<Rightarrow>
                              Inr (if over then c6\<lparr>scrollTarget := Some cnt\<rparr> else c6)))))))))
         else Inr (setScrollX cnt 0 c))"

definition scrollbar ::
  "env \<Rightarrow> nat \<Rightarrow> Rectangle \<Rightarrow> Point \<Rightarrow> bool \<Rightarrow> Context \<Rightarrow> error + Context" where
  "scrollbar E cnt b cs swap c =
     (if swap then scrollbarHorizontal E cnt b cs c else scrollbarVertical E cnt b cs c)"

text \<open>An environment to evaluate on: a fixed next rectangle, and draw helpers that emit nothing.\<close>

definition env0 :: env where
  "env0 =
     \<lparr>layoutNext = (\<lambda>c. Inr (Rect 0 0 100 20, layoutStack c)),
      render = (\<lambda>d c. Inr []),
      textWidth = (\<lambda>s. 8 * int (length s)),
      lineHeight = 16\<rparr>"

text \<open>
  A context for the scrollbars: inside a frame, with the scroll offset of container 0 beyond
  the content on both axes.
\<close>

definition scrollCtx :: Context where
  "scrollCtx =
     ctx0\<lparr>clipStack := [unclipped0],
          containers := (\<lambda>_. zeroContainer)(0 := zeroContainer\<lparr>Scroll := Pt 500 170\<rparr>)\<rparr>"

text \<open>
  A focused text box under another window. The text box has identity 5 and focus, and its
  rectangle is the one the layout of \<open>env0\<close> yields, (0,0)-(100,20). Its root container is
  slot 0; the hover root is slot 1, a window that lies over it. The left button is pressed in
  this frame at (10,10), inside the text box's rectangle.
\<close>

definition coveredTextBoxCtx :: Context where
  "coveredTextBoxCtx =
     ctx0\<lparr>clipStack := [unclipped0], containerStack := [0], hoverRoot := Some 1,
          focus := 5, mousePos := Pt 10 10, mouseDown := 1, mousePressed := 1\<rparr>"

text \<open>The same text box with the button released and nothing pressed.\<close>

definition releasedTextBoxCtx :: Context where
  "releasedTextBoxCtx =
     ctx0\<lparr>clipStack := [unclipped0], containerStack := [0], hoverRoot := Some 0,
          focus := 5, hover := 5, mousePos := Pt 10 10\<rparr>"

text \<open>
  A number field in text-edit mode: identity 5 is being edited and has focus, the buffer holds
  text that is no number, and the return key is pressed in this frame. The parser of the
  evaluation accepts the string 12 and fails on everything else, returning the value 99 with
  its error, as a parser may.
\<close>

definition numEditCtx :: Context where
  "numEditCtx =
     ctx0\<lparr>clipStack := [unclipped0], containerStack := [0], hoverRoot := Some 0,
          focus := 5, numberEdit := 5, numberEditBuf := ''1e'', keyPressed := 16\<rparr>"

definition parse0 :: "string \<Rightarrow> int \<times> bool" where
  "parse0 s = (if s = ''12'' then (12, False) else (99, True))"

definition fmt0 :: "int \<Rightarrow> string" where
  "fmt0 v = (if v = 12 then ''12'' else ''0'')"

section \<open>What the patching loop is to write\<close>

text \<open>
  The destination the claim gives to the tail jump of the \<open>j\<close>-th root container in z-order:
  one past the head of the next container, or the length of the command list for the last one.
\<close>

definition jump_target :: "Container list \<Rightarrow> int \<Rightarrow> nat \<Rightarrow> int" where
  "jump_target rs L j = (if j + 1 < length rs then add64 (HeadIdx (rs ! (j + 1))) 1 else L)"

text \<open>Every tail index is an index of the command list.\<close>

definition tails_ok :: "Container list \<Rightarrow> command list \<Rightarrow> bool" where
  "tails_ok rs cmds \<longleftrightarrow> (\<forall>r \<in> set rs. 0 \<le> TailIdx r \<and> TailIdx r < int (length cmds))"


section \<open>Root containers in the command buffer\<close>

text \<open>
  Modelled from the spec: \<open>pushJump\<close> is declared outside the sources at hand. By the spec's
  contract of the command buffer it appends a jump entry with the given destination and returns
  the index of the entry.
\<close>

definition jump_command :: "int \<Rightarrow> command" where
  "jump_command dst = \<lparr>cmd_typ = commandJump, dstIdx = dst, payload = None\<rparr>"

definition pushJump :: "int \<Rightarrow> Context \<Rightarrow> int \<times> Context" where
  "pushJump dst c =
     (int (length (commandList c)), c\<lparr>commandList := commandList c @ [jump_command dst]\<rparr>)"

definition CurrentContainer :: "Context \<Rightarrow> error + nat" where
  "CurrentContainer c =
     (if containerStack c = [] then Inl IndexOutOfRange
      else Inr (containerStack c ! (length (containerStack c) - 1)))"

text \<open>
  What \<open>window\<close> does to the command buffer and the root list. On entry (controls.go, lines
  534 to 539) it pushes the container on the container stack, appends it to the root list and
  pushes the head jump, whose index becomes the container's head index.
\<close>

definition window_open :: "nat \<Rightarrow> Context \<Rightarrow> Context" where
  "window_open cnt c =
     (let c1 = c\<lparr>containerStack := containerStack c @ [cnt]\<rparr>;
          c2 = c1\<lparr>rootList := rootList c1 @ [cnt]\<rparr>
      in case pushJump (- 1) c2 of
           (h, c3) \<Rightarrow> c3\<lparr>containers := (containers c3)(cnt := (containers c3 cnt)\<lparr>HeadIdx := h\<rparr>)\<rparr>)"

text \<open>
  On exit the deferred function (lines 540 to 546) pushes the tail jump for the current
  container and sets the destination of its head jump to the length of the command list, and
  then \<open>popContainer\<close> pops the container stack (helpers.go, line 137). The other things
  \<open>window\<close> and \<open>popContainer\<close> do (identity, clip and layout stacks, the container's
  rectangles) touch neither the command list nor the root list nor a head or tail index, and
  are left out; what \<open>window\<close> and its callback draw are the entries of the body below.
\<close>

definition window_close :: "Context \<Rightarrow> error + Context" where
  "window_close c =
     (case CurrentContainer c of
        Inl e \<Rightarrow> Inl e
      | Inr cnt \<Rightarrow>
          (case pushJump (- 1) c of
             (t, c1) \<Rightarrow>
               (let c2 = c1\<lparr>containers := (containers c1)(cnt := (containers c1 cnt)\<lparr>TailIdx := t\<rparr>)\<rparr>
                in case set_dst (HeadIdx (containers c2 cnt)) (int (length (commandList c2)))
                          (commandList c2) of
                     Inl e \<Rightarrow> Inl e
                   | Inr cmds \<Rightarrow>
                       Inr (c2\<lparr>commandList := cmds,
                               containerStack :=
                                 take (length (containerStack c2) - 1) (containerStack c2)\<rparr>))))"

text \<open>
  What a frame does to the command buffer, as a tree: a draw helper appends an entry, and a
  call of \<open>window\<close> for the container in a slot encloses what is emitted while it is open,
  which may be further windows.
\<close>

datatype decl = Emit prim | Root nat "decl list"

fun run_decls :: "decl list \<Rightarrow> Context \<Rightarrow> error + Context" where
  "run_decls [] c = Inr c"
| "run_decls (Emit p # ds) c = run_decls ds (c\<lparr>commandList := commandList c @ [prim_command p]\<rparr>)"
| "run_decls (Root cnt inner # ds) c =
     (case run_decls inner (window_open cnt c) of
        Inl e \<Rightarrow> Inl e
      | Inr c1 \<Rightarrow>
          (case window_close c1 of
             Inl e \<Rightarrow> Inl e
           | Inr c2 \<Rightarrow> run_decls ds c2))"

text \<open>The root containers of a tree in call order, and the tree's number of buffer entries.\<close>

fun roots_of :: "decl list \<Rightarrow> nat list" where
  "roots_of [] = []"
| "roots_of (Emit p # ds) = roots_of ds"
| "roots_of (Root cnt inner # ds) = cnt # roots_of inner @ roots_of ds"

fun size_decls :: "decl list \<Rightarrow> nat" where
  "size_decls [] = 0"
| "size_decls (Emit p # ds) = 1 + size_decls ds"
| "size_decls (Root cnt inner # ds) = 2 + size_decls inner + size_decls ds"

text \<open>The entries a container emits itself: those of its body that are in no inner window.\<close>

fun direct :: "decl list \<Rightarrow> command list" where
  "direct [] = []"
| "direct (Emit p # ds) = prim_command p # direct ds"
| "direct (Root cnt inner # ds) = direct ds"

fun body_of :: "nat \<Rightarrow> decl list \<Rightarrow> decl list" where
  "body_of p [] = []"
| "body_of p (Emit q # ds) = body_of p ds"
| "body_of p (Root cnt inner # ds) =
     (if cnt = p then inner
      else if p \<in> set (roots_of inner) then body_of p inner
      else body_of p ds)"

fun starts_with_root :: "decl list \<Rightarrow> bool" where
  "starts_with_root (Emit p # ds) = False"
| "starts_with_root ds = True"

text \<open>
  The buffer a tree produces when it is laid out from an offset: a window is its head jump,
  which skips to one past its tail, its body, and its tail jump, which is still unresolved.
  \<open>spans\<close> lists the windows with their head index, tail index and body.
\<close>

fun emit :: "nat \<Rightarrow> decl list \<Rightarrow> command list" where
  "emit off [] = []"
| "emit off (Emit p # ds) = prim_command p # emit (off + 1) ds"
| "emit off (Root cnt inner # ds) =
     jump_command (int (off + 2 + size_decls inner)) # emit (off + 1) inner
       @ jump_command (- 1) # emit (off + 2 + size_decls inner) ds"

fun spans :: "nat \<Rightarrow> decl list \<Rightarrow> (nat \<times> nat \<times> nat \<times> decl list) list" where
  "spans off [] = []"
| "spans off (Emit p # ds) = spans (off + 1) ds"
| "spans off (Root cnt inner # ds) =
     (cnt, off, off + 1 + size_decls inner, inner) # spans (off + 1) inner
       @ spans (off + 2 + size_decls inner) ds"

section \<open>Replay of the command buffer\<close>

text \<open>
  Modelled from the spec: the consumer of the command buffer is outside the sources at hand.
  By the spec it walks the buffer from index 0, follows the destination of every jump entry and
  executes the draw entries in the order in which it meets them, until it reaches the length
  of the buffer. The walk need not end (a jump may lead back), and an index outside the buffer
  halts it: both are \<open>None\<close>.
\<close>

partial_function (option) replay :: "command list \<Rightarrow> nat \<Rightarrow> command list option" where
  "replay cs pc =
     (if pc = length cs then Some []
      else if pc > length cs then None
      else if cmd_typ (cs ! pc) = commandJump
      then (if dstIdx (cs ! pc) < 0 then None else replay cs (nat (dstIdx (cs ! pc))))
      else Option.bind (replay cs (pc + 1)) (\<lambda>vs. Some (cs ! pc # vs)))"







chapter \<open>Properties\<close>

section \<open>The identity of a widget is the FNV-1a hash of its bytes under its scope\<close>

lemma fnv1a_loop_drop:
  "fnv1a_loop h data i = fnv1a_spec h (drop i data)"
proof (induction h data i rule: fnv1a_loop.induct)
  case (1 h data i)
  show ?case
  proof (cases "i < length data")
    case True
    then have "drop i data = data ! i # drop (Suc i) data"
      by (simp add: Cons_nth_drop_Suc)
    with True 1 show ?thesis
      by (subst fnv1a_loop.simps) (simp add: fnv1a_spec_def)
  next
    case False
    then show ?thesis
      by (subst fnv1a_loop.simps) (simp add: fnv1a_spec_def)
  qed
qed

lemma fnv1a_eq_spec: "fnv1a init data = fnv1a_spec init data"
  by (simp add: fnv1a_def fnv1a_loop_drop)

lemma ctx_id_eq:
  "ctx_id data c =
     (fnv1a_spec (id_scope c) data, c\<lparr>LastID := fnv1a_spec (id_scope c) data\<rparr>)"
  by (simp add: ctx_id_def Let_def fnv1a_eq_spec id_scope_def hashInitial_def last_conv_nth)

text \<open>
  Claim C2. For every byte sequence, \<open>Context.id\<close> returns the FNV-1a hash of the bytes,
  seeded with the top of the id stack when the stack is not empty and with the offset basis
  14695981039346656037 when it is, each byte folded in by XOR and then multiplication with
  1099511628211; it records the result as the last id and changes nothing else, so two calls
  with the same scope and the same bytes return the same identity, whatever else differs between
  the two contexts.
\<close>

theorem id_is_fnv1a_of_scope_and_bytes:
  "ctx_id bytes c =
     (fnv1a_spec (id_scope c) bytes, c\<lparr>LastID := fnv1a_spec (id_scope c) bytes\<rparr>) \<and>
   (id_scope c = id_scope c' \<longrightarrow> fst (ctx_id bytes c) = fst (ctx_id bytes c'))"
  by (simp add: ctx_id_eq)

theorem id_is_fnv1a_of_scope_and_bytes_witness:
  "id_scope ctx0 = id_scope (ctx0\<lparr>idStack := [7, hashInitial], focus := 3\<rparr>) \<and>
   fst (ctx_id [97] ctx0) = 0xaf63dc4c8601ec8c \<and>
   fst (ctx_id [97] (ctx0\<lparr>idStack := [7, hashInitial], focus := 3\<rparr>)) = 0xaf63dc4c8601ec8c"
proof -
  have scope: "id_scope ctx0 = id_scope (ctx0\<lparr>idStack := [7, hashInitial], focus := 3\<rparr>)"
    by (simp add: id_scope_def ctx0_def hashInitial_def)
  have val: "fst (ctx_id [97] ctx0) = 0xaf63dc4c8601ec8c"
    by (simp add: ctx_id_def ctx0_def Let_def fnv1a_def fnv1a_loop.simps hashInitial_def)
  from id_is_fnv1a_of_scope_and_bytes
         [of "[97]" ctx0 "ctx0\<lparr>idStack := [7, hashInitial], focus := 3\<rparr>"] scope val
  show ?thesis by simp
qed

section \<open>Hover changes while a button is held\<close>

text \<open>
  Claim C4 as stated fails: \<open>updateControl\<close> clears the hover identity while a button is held.
  In the drag context the left button is down, the control with identity 5 is hovered and the
  pointer is outside its rectangle; the call returns with hover cleared to zero.
\<close>

theorem updateControl_clears_hover_while_button_down:
  "mouseDown dragCtx \<noteq> 0 \<and> hover dragCtx = 5 \<and>
   updateControl 5 (Rect 0 0 10 10) 0 dragCtx = Inr (dragCtx\<lparr>keepFocus := True, hover := 0\<rparr>)"
  by (simp add: dragCtx_def ctx0_def updateControl_def mouseOver_def PtIn_def Rect_def Pt_def
      Let_def OptNoInteract_def OptHoldFocus_def SetFocus_def)

text \<open>
  Claim C4, amended. A call of \<open>updateControl\<close> that returns leaves the hover identity as it
  was, or sets it to the control's identity, or clears it to zero. It sets it to the control's
  identity only when no button is down. While a button is down the hover identity is left as
  it was or cleared, and it is cleared only when it was this control's identity, no button was
  pressed in this frame and the pointer is not over the control. So hover never moves to a
  control while a button is held, but a held button does not keep it from being cleared.
\<close>

theorem updateControl_hover_assigned_only_without_button:
  assumes "updateControl i rect opt c = Inr c'"
  shows "(hover c' = hover c \<or> hover c' = i \<or> hover c' = 0) \<and>
         (hover c' \<noteq> hover c \<longrightarrow> hover c' = i \<longrightarrow> i \<noteq> 0 \<longrightarrow> mouseDown c = 0) \<and>
         (mouseDown c \<noteq> 0 \<longrightarrow>
            hover c' = hover c \<or>
            (hover c' = 0 \<and> hover c = i \<and> mousePressed c = 0 \<and> mouseOver rect c = Inr False))"
  using assms
  by (auto simp: updateControl_def Let_def SetFocus_def split: if_splits sum.splits)

theorem updateControl_hover_assigned_only_without_button_witness:
  "updateControl 5 (Rect 0 0 10 10) 0 dragCtx = Inr (dragCtx\<lparr>keepFocus := True, hover := 0\<rparr>) \<and>
   mouseDown dragCtx \<noteq> 0 \<and>
   hover (dragCtx\<lparr>keepFocus := True, hover := 0\<rparr>) = 0 \<and> hover dragCtx = 5 \<and>
   mousePressed dragCtx = 0 \<and> mouseOver (Rect 0 0 10 10) dragCtx = Inr False"
proof -
  have run: "updateControl 5 (Rect 0 0 10 10) 0 dragCtx
               = Inr (dragCtx\<lparr>keepFocus := True, hover := 0\<rparr>)"
    by (simp add: dragCtx_def ctx0_def updateControl_def mouseOver_def PtIn_def Rect_def Pt_def
        Let_def OptNoInteract_def OptHoldFocus_def SetFocus_def)
  have down: "mouseDown dragCtx \<noteq> 0" "hover dragCtx = 5"
    by (simp_all add: dragCtx_def ctx0_def)
  from updateControl_hover_assigned_only_without_button [OF run] down run
  show ?thesis by simp
qed

section \<open>The container registry under the closed flag\<close>

lemma poolGet_from_range:
  "poolGet_from i items x = - 1 \<or> (int i \<le> poolGet_from i items x \<and> poolGet_from i items x < int (i + length items))"
  by (induction i items x rule: poolGet_from.induct) auto

lemma poolGet_from_found:
  "0 \<le> poolGet_from i items x \<Longrightarrow>
     pool_id (items ! (nat (poolGet_from i items x) - i)) = x"
proof (induction i items x rule: poolGet_from.induct)
  case (1 i x)
  then show ?case by simp
next
  case (2 i p ps x)
  show ?case
  proof (cases "pool_id p = x")
    case True
    then show ?thesis by simp
  next
    case False
    have "int (i + 1) \<le> poolGet_from (i + 1) ps x"
      using poolGet_from_range[of "i + 1" ps x] 2 False by auto
    then have "nat (poolGet_from (i + 1) ps x) - i = Suc (nat (poolGet_from (i + 1) ps x) - (i + 1))"
      by linarith
    then show ?thesis using 2 False by simp
  qed
qed

lemma poolGet_from_none:
  "poolGet_from i items x < 0 \<longleftrightarrow> (\<forall>p \<in> set items. pool_id p \<noteq> x)"
  by (induction i items x rule: poolGet_from.induct) auto

lemma poolGet_absent_iff: "poolGet items x < 0 \<longleftrightarrow> x \<notin> pool_id ` set items"
  by (auto simp: poolGet_def poolGet_from_none)

lemma poolGet_found:
  "0 \<le> poolGet items x \<Longrightarrow>
     nat (poolGet items x) < length items \<and> pool_id (items ! nat (poolGet items x)) = x"
  using poolGet_from_range[of 0 items x] poolGet_from_found[of 0 items x]
  by (auto simp: poolGet_def)

lemma poolUpdate_ids: "map pool_id (poolUpdate items idx t) = map pool_id items"
proof (cases "idx < length items")
  case True
  then show ?thesis
    by (simp add: poolUpdate_def map_update list_update_same_conv)
next
  case False
  then show ?thesis by (simp add: poolUpdate_def list_update_beyond)
qed

lemma closed_bit: 
  assumes "(opt AND OptClosed) \<noteq> 0" shows "(NOT opt AND OptClosed) = 0"
proof -
  have p: "(2048::int) = 2 ^ 11" by simp
  from assms have "opt AND 2 ^ 11 \<noteq> 0" unfolding OptClosed_def p .
  then have "bit opt 11" using and_exp_eq_0_iff_not_bit[of opt 11] by blast
  then have "\<not> bit (NOT opt) 11" by (simp add: bit_not_int_iff)
  then have "NOT opt AND 2 ^ 11 = 0" using and_exp_eq_0_iff_not_bit[of "NOT opt" 11] by blast
  then show ?thesis unfolding OptClosed_def p .
qed

text \<open>
  Claim C5 as stated fails: with the closed flag set, \<open>container\<close> returns a container that is in
  the pool whether or not it is open. In the context below slot 1 holds identity 7 and its
  container is not open, and the call returns that slot, not \<open>nil\<close>.
\<close>

theorem container_closed_flag_returns_closed_container:
  "(OptClosed AND OptClosed) \<noteq> 0 \<and>
   poolGet (containerPool closedPopupCtx) 7 = 1 \<and>
   \<not> Open (containers closedPopupCtx 1) \<and>
   container 7 OptClosed closedPopupCtx = Inr (Some 1, closedPopupCtx)"
  by (simp add: closedPopupCtx_def ctx0_def container_def poolGet_def Let_def OptClosed_def
      zeroContainer_def)

text \<open>
  Claim C5, amended. With the closed flag set, \<open>container\<close> never halts and returns a container
  exactly when the pool holds the identity, open or not: the slot found by \<open>poolGet\<close>, and
  \<open>nil\<close> when the identity is not in the pool. It never creates a container: the container
  records, the z-index counter and the identities in the pool are left as they were, and the
  whole context is unchanged when the identity is not in the pool or its container is not open
  (only an open container has the recency of its slot refreshed). Whether the returned container
  is open is left to the caller.
\<close>

theorem container_closed_flag_never_creates:
  assumes "(opt AND OptClosed) \<noteq> 0"
  shows "\<exists>c'. container i opt c =
                 Inr (if i \<in> pool_id ` set (containerPool c)
                      then Some (nat (poolGet (containerPool c) i)) else None, c') \<and>
              containers c' = containers c \<and> lastZIndex c' = lastZIndex c \<and>
              map pool_id (containerPool c') = map pool_id (containerPool c) \<and>
              (i \<notin> pool_id ` set (containerPool c) \<or>
               \<not> Open (containers c (nat (poolGet (containerPool c) i))) \<longrightarrow> c' = c)"
proof (cases "i \<in> pool_id ` set (containerPool c)")
  case True
  then have ge: "0 \<le> poolGet (containerPool c) i"
    using poolGet_absent_iff[of "containerPool c" i] by simp
  show ?thesis
    using True ge closed_bit[OF assms]
    by (simp add: container_def Let_def poolUpdate_ids)
next
  case False
  then have "poolGet (containerPool c) i < 0"
    using poolGet_absent_iff[of "containerPool c" i] by simp
  then show ?thesis
    using False assms by (simp add: container_def Let_def)
qed

theorem container_closed_flag_never_creates_witness:
  "(OptClosed AND OptClosed) \<noteq> 0 \<and>
   8 \<notin> pool_id ` set (containerPool closedPopupCtx) \<and>
   container 8 OptClosed closedPopupCtx = Inr (None, closedPopupCtx)"
proof -
  have flag: "(OptClosed AND OptClosed) \<noteq> 0" by (simp add: OptClosed_def)
  have absent: "8 \<notin> pool_id ` set (containerPool closedPopupCtx)"
    by (simp add: closedPopupCtx_def ctx0_def)
  from container_closed_flag_never_creates [OF flag, of 8 closedPopupCtx] absent flag
  show ?thesis by auto
qed

section \<open>The clip stack\<close>

lemma Intersect_In_right: "RectIn (Intersect r s) s"
  by (auto simp: Intersect_def RectIn_def Empty_def Let_def ZR_def Pt_def)

lemma Intersect_In_left: "RectIn (Intersect r s) r"
  by (auto simp: Intersect_def RectIn_def Empty_def Let_def ZR_def Pt_def)

lemma RectIn_refl: "RectIn r r"
  by (simp add: RectIn_def)

lemma RectIn_trans: "RectIn r s \<Longrightarrow> RectIn s t \<Longrightarrow> RectIn r t"
  by (auto simp: RectIn_def Empty_def split: if_splits)

lemma clip_step_inv:
  assumes "clip_step u x (c, g) = Inr (c', g')" and "clip_inv u (clipStack c) g"
  shows "clip_inv u (clipStack c') g'"
proof (cases x)
  case (PushClipRect r)
  with assms(1) have ne: "clipStack c \<noteq> []"
    and c': "clipStack c' = clipStack c @ [Intersect r (last (clipStack c))]"
    and g': "g' = g @ [Some r]"
    by (auto simp: pushClipRect_def clipRect_def last_conv_nth split: if_splits sum.splits)
  from assms(2) have len: "length g = length (clipStack c)" by (simp add: clip_inv_def)
  show ?thesis
    unfolding clip_inv_def c' g'
    using assms(2) len ne
    by (auto simp: clip_inv_def nth_append last_conv_nth less_Suc_eq split: option.splits)
next
  case PopClipRect
  with assms(1) have ne: "clipStack c \<noteq> []"
    and c': "clipStack c' = butlast (clipStack c)"
    and g': "g' = butlast g"
    by (auto simp: popClipRect_def butlast_conv_take split: if_splits sum.splits)
  from assms(2) have len: "length g = length (clipStack c)" by (simp add: clip_inv_def)
  show ?thesis
    unfolding clip_inv_def c' g'
  proof (intro conjI allI impI)
    show "length (butlast g) = length (butlast (clipStack c))" using len by simp
  next
    fix i assume i: "i < length (butlast (clipStack c))"
    then have il: "i < length (clipStack c)" by simp
    have old: "case g ! i of None \<Rightarrow> clipStack c ! i = u
                | Some r \<Rightarrow> 0 < i \<and> clipStack c ! i = Intersect r (clipStack c ! (i - 1))"
      using assms(2) il by (simp add: clip_inv_def)
    have "i - 1 < length (butlast (clipStack c))" using i by simp
    then show "case butlast g ! i of None \<Rightarrow> butlast (clipStack c) ! i = u
                | Some r \<Rightarrow> 0 < i \<and> butlast (clipStack c) ! i
                                 = Intersect r (butlast (clipStack c) ! (i - 1))"
      using old i len by (simp add: nth_butlast split: option.splits)
  qed
next
  case WindowReset
  with assms(1) have c': "clipStack c' = clipStack c @ [u]" and g': "g' = g @ [None]"
    by (auto simp: window_reset_clip_def)
  from assms(2) have len: "length g = length (clipStack c)" by (simp add: clip_inv_def)
  show ?thesis
    unfolding clip_inv_def c' g'
    using assms(2) len
    by (auto simp: clip_inv_def nth_append less_Suc_eq split: option.splits)
qed

lemma clip_run_inv:
  "clip_run u ops s = Inr s' \<Longrightarrow> clip_inv u (clipStack (fst s)) (snd s)
     \<Longrightarrow> clip_inv u (clipStack (fst s')) (snd s')"
proof (induction ops arbitrary: s)
  case Nil
  then show ?case by simp
next
  case (Cons x xs)
  then obtain s1 where s1: "clip_step u x s = Inr s1" "clip_run u xs s1 = Inr s'"
    by (auto split: sum.splits)
  have "clip_inv u (clipStack (fst s1)) (snd s1)"
    using clip_step_inv[of u x "fst s" "snd s" "fst s1" "snd s1"] s1(1) Cons.prems(2) by simp
  then show ?case using Cons.IH[OF s1(2)] by simp
qed

lemma clip_inv_chain:
  assumes "clip_inv u st g" and "i \<le> j" and "j < length st"
    and "\<forall>k. i < k \<and> k \<le> j \<longrightarrow> g ! k \<noteq> None"
  shows "RectIn (st ! j) (st ! i)"
  using assms(2-4)
proof (induction j)
  case 0
  then show ?case by (simp add: RectIn_refl)
next
  case (Suc j)
  show ?case
  proof (cases "i = Suc j")
    case True
    then show ?thesis by (simp add: RectIn_refl)
  next
    case False
    then have ij: "i \<le> j" using Suc.prems by simp
    have "g ! Suc j \<noteq> None" using Suc.prems False by auto
    then obtain r where r: "g ! Suc j = Some r" by auto
    have "st ! Suc j = Intersect r (st ! j)"
      using assms(1) Suc.prems(2) r by (auto simp: clip_inv_def split: option.splits)
    then have a: "RectIn (st ! Suc j) (st ! j)" by (simp add: Intersect_In_right)
    have b: "RectIn (st ! j) (st ! i)"
      using Suc.IH[OF ij] Suc.prems by auto
    show ?thesis using a b RectIn_trans by blast
  qed
qed

lemma push_pop: "pushClipRect r c = Inr c1 \<Longrightarrow> popClipRect c1 = Inr c"
  by (auto simp: pushClipRect_def popClipRect_def clipRect_def split: if_splits sum.splits)

lemma reset_pop: "popClipRect (window_reset_clip u c) = Inr c"
  by (simp add: popClipRect_def window_reset_clip_def)

text \<open>
  Claim C6 as stated fails for the element that \<open>window\<close> appends. A root container is opened
  inside another one: the outer \<open>window\<close> appends \<open>unclippedRect\<close> and pushes its body
  (0,0)-(10,10), then the inner \<open>window\<close> appends \<open>unclippedRect\<close> as it is. The new top is not
  the intersection of \<open>unclippedRect\<close> with the element that was on top, and it is not contained
  in the rectangle below it.
\<close>

theorem window_clip_reset_is_no_intersection:
  "clip_run unclipped0 [WindowReset, PushClipRect (Rect 0 0 10 10), WindowReset] (ctx0, [])
     = Inr (ctx0\<lparr>clipStack := [unclipped0, Rect 0 0 10 10, unclipped0]\<rparr>,
            [None, Some (Rect 0 0 10 10), None]) \<and>
   unclipped0 \<noteq> Intersect unclipped0 (Rect 0 0 10 10) \<and>
   \<not> RectIn unclipped0 (Rect 0 0 10 10)"
  by (simp add: window_reset_clip_def pushClipRect_def clipRect_def ctx0_def unclipped0_def
       Rect_def Intersect_def RectIn_def Empty_def Pt_def Let_def ZR_def)

text \<open>
  Claim C6, amended. After every sequence of clip-stack operations that does not halt, every
  element that \<open>pushClipRect\<close> pushed equals the intersection of the rectangle supplied at its
  push with the element below it, which was the top at push time, and every element that
  \<open>window\<close> appended is \<open>unclippedRect\<close> itself, not intersected with anything. Hence an element
  of the stack is contained in every element below it down to the nearest element that
  \<open>window\<close> appended, and so is the top, the effective clip. \<open>popClipRect\<close> after either kind
  of push gives back the context as it was before the push.
\<close>

theorem clip_stack_intersections_up_to_window_reset:
  assumes "clip_run u ops (c, g) = Inr (c', g')" and "clip_inv u (clipStack c) g"
  shows "clip_inv u (clipStack c') g' \<and>
         (\<forall>i j. i \<le> j \<and> j < length (clipStack c') \<and> (\<forall>k. i < k \<and> k \<le> j \<longrightarrow> g' ! k \<noteq> None)
                \<longrightarrow> RectIn (clipStack c' ! j) (clipStack c' ! i)) \<and>
         (\<forall>r c1. pushClipRect r c' = Inr c1 \<longrightarrow> popClipRect c1 = Inr c') \<and>
         popClipRect (window_reset_clip u c') = Inr c'"
proof -
  have inv: "clip_inv u (clipStack c') g'"
    using clip_run_inv[OF assms(1)] assms(2) by simp
  show ?thesis
    using inv clip_inv_chain[OF inv] push_pop reset_pop by blast
qed

theorem clip_stack_intersections_up_to_window_reset_witness:
  "clip_run unclipped0
     [WindowReset, PushClipRect (Rect 0 0 10 10), PushClipRect (Rect 5 5 20 20),
      PushClipRect (Rect 0 0 1 1), PopClipRect] (ctx0, [])
     = Inr (ctx0\<lparr>clipStack := [unclipped0, Rect 0 0 10 10, Rect 5 5 10 10]\<rparr>,
            [None, Some (Rect 0 0 10 10), Some (Rect 5 5 20 20)]) \<and>
   clip_inv unclipped0 (clipStack ctx0) [] \<and>
   RectIn (Rect 5 5 10 10) unclipped0"
proof -
  have run: "clip_run unclipped0
     [WindowReset, PushClipRect (Rect 0 0 10 10), PushClipRect (Rect 5 5 20 20),
      PushClipRect (Rect 0 0 1 1), PopClipRect] (ctx0, [])
     = Inr (ctx0\<lparr>clipStack := [unclipped0, Rect 0 0 10 10, Rect 5 5 10 10]\<rparr>,
            [None, Some (Rect 0 0 10 10), Some (Rect 5 5 20 20)])"
    by (simp add: window_reset_clip_def pushClipRect_def popClipRect_def clipRect_def ctx0_def
        unclipped0_def Rect_def Intersect_def Empty_def Pt_def Let_def ZR_def)
  have start: "clip_inv unclipped0 (clipStack ctx0) []"
    by (simp add: clip_inv_def ctx0_def)
  from clip_stack_intersections_up_to_window_reset [OF run start]
  have "\<forall>i j. i \<le> j \<and> j < 3 \<and>
          (\<forall>k. i < k \<and> k \<le> j \<longrightarrow> [None, Some (Rect 0 0 10 10), Some (Rect 5 5 20 20)] ! k \<noteq> None)
          \<longrightarrow> RectIn ([unclipped0, Rect 0 0 10 10, Rect 5 5 10 10] ! j)
                       ([unclipped0, Rect 0 0 10 10, Rect 5 5 10 10] ! i)"
    by simp
  then have "0 \<le> (2::nat) \<and> (2::nat) < 3 \<and>
          (\<forall>k. 0 < k \<and> k \<le> 2 \<longrightarrow> [None, Some (Rect 0 0 10 10), Some (Rect 5 5 20 20)] ! k \<noteq> None)
          \<longrightarrow> RectIn ([unclipped0, Rect 0 0 10 10, Rect 5 5 10 10] ! 2)
                       ([unclipped0, Rect 0 0 10 10, Rect 5 5 10 10] ! 0)"
    by blast
  moreover have "\<forall>k. 0 < k \<and> k \<le> 2 \<longrightarrow>
      [None, Some (Rect 0 0 10 10), Some (Rect 5 5 20 20)] ! k \<noteq> None"
  proof (intro allI impI)
    fix k :: nat assume "0 < k \<and> k \<le> 2"
    then have "k = 1 \<or> k = 2" by linarith
    then show "[None, Some (Rect 0 0 10 10), Some (Rect 5 5 20 20)] ! k \<noteq> None" by auto
  qed
  ultimately have "RectIn (Rect 5 5 10 10) unclipped0" by simp
  with run start show ?thesis by simp
qed

section \<open>Scroll offsets after the scrollbar pass\<close>

lemma draw_containers: "draw E d c = Inr c' \<Longrightarrow> containers c' = containers c"
  by (auto simp: draw_def split: sum.splits)

lemma updateControl_containers:
  "updateControl i r opt c = Inr c' \<Longrightarrow> containers c' = containers c"
  by (auto simp: updateControl_def Let_def SetFocus_def split: if_splits sum.splits)

lemma clamp_range: "0 \<le> m \<Longrightarrow> 0 \<le> clamp x 0 m \<and> clamp x 0 m \<le> m"
  by (simp add: clamp_def min_go_def max_go_def)

lemma scrollY_set: "Y (Scroll (containers (setScrollY cnt v c) cnt)) = v"
  by (simp add: setScrollY_def)

lemma scrollX_set: "X (Scroll (containers (setScrollX cnt v c) cnt)) = v"
  by (simp add: setScrollX_def)

lemma scrollbarVertical_else:
  "\<not> (0 < sub64 (Y cs) (Dy b) \<and> 0 < Dy b)
     \<Longrightarrow> scrollbarVertical E cnt b cs c = Inr (setScrollY cnt 0 c)"
  by (simp only: scrollbarVertical_def Let_def if_False)

lemma scrollbarHorizontal_else:
  "\<not> (0 < sub64 (X cs) (Dx b) \<and> 0 < Dx b)
     \<Longrightarrow> scrollbarHorizontal E cnt b cs c = Inr (setScrollX cnt 0 c)"
  by (simp only: scrollbarHorizontal_def Let_def if_False)

lemma scrollbarVertical_range:
  assumes "scrollbarVertical E cnt b cs c = Inr c'"
  shows "if 0 < sub64 (Y cs) (Dy b) \<and> 0 < Dy b
         then 0 \<le> Y (Scroll (containers c' cnt)) \<and>
              Y (Scroll (containers c' cnt)) \<le> sub64 (Y cs) (Dy b)
         else Y (Scroll (containers c' cnt)) = 0"
proof (cases "0 < sub64 (Y cs) (Dy b) \<and> 0 < Dy b")
  case False
  with assms have "c' = setScrollY cnt 0 c"
    by (auto simp: scrollbarVertical_def Let_def)
  with False show ?thesis by (simp add: scrollY_set)
next
  case True
  let ?m = "sub64 (Y cs) (Dy b)"
  from assms True obtain c3 c4 c5 c6 d1 d2 where
    c4: "c4 = setScrollY cnt (clamp (Y (Scroll (containers c3 cnt))) 0 ?m) c3"
    and d1: "draw E d1 c4 = Inr c5" and d2: "draw E d2 c5 = Inr c6"
    and c': "c' = c6 \<or> c' = c6\<lparr>scrollTarget := Some cnt\<rparr>"
    by (auto simp: scrollbarVertical_def Let_def split: sum.splits prod.splits if_splits)
  have "containers c' = containers c4"
    using c' draw_containers[OF d1] draw_containers[OF d2] by auto
  then have "Y (Scroll (containers c' cnt)) = clamp (Y (Scroll (containers c3 cnt))) 0 ?m"
    by (simp add: c4 scrollY_set)
  with True clamp_range[of ?m] show ?thesis by simp
qed

lemma scrollbarHorizontal_range:
  assumes "scrollbarHorizontal E cnt b cs c = Inr c'"
  shows "if 0 < sub64 (X cs) (Dx b) \<and> 0 < Dx b
         then 0 \<le> X (Scroll (containers c' cnt)) \<and>
              X (Scroll (containers c' cnt)) \<le> sub64 (X cs) (Dx b)
         else X (Scroll (containers c' cnt)) = 0"
proof (cases "0 < sub64 (X cs) (Dx b) \<and> 0 < Dx b")
  case False
  with assms have "c' = setScrollX cnt 0 c"
    by (auto simp: scrollbarHorizontal_def Let_def)
  with False show ?thesis by (simp add: scrollX_set)
next
  case True
  let ?m = "sub64 (X cs) (Dx b)"
  from assms True obtain c3 c4 c5 c6 d1 d2 where
    c4: "c4 = setScrollX cnt (clamp (X (Scroll (containers c3 cnt))) 0 ?m) c3"
    and d1: "draw E d1 c4 = Inr c5" and d2: "draw E d2 c5 = Inr c6"
    and c': "c' = c6 \<or> c' = c6\<lparr>scrollTarget := Some cnt\<rparr>"
    by (auto simp: scrollbarHorizontal_def Let_def split: sum.splits prod.splits if_splits)
  have "containers c' = containers c4"
    using c' draw_containers[OF d1] draw_containers[OF d2] by auto
  then have "X (Scroll (containers c' cnt)) = clamp (X (Scroll (containers c3 cnt))) 0 ?m"
    by (simp add: c4 scrollX_set)
  with True clamp_range[of ?m] show ?thesis by simp
qed

text \<open>
  Claim C10. After \<open>scrollbarVertical\<close> has returned for a container, body rectangle \<open>b\<close> and
  padded content size \<open>cs\<close>: when the content overflows on the axis (the content extent minus
  the body extent, as the code computes it, is positive and the body extent is positive) the
  container's scroll offset on that axis lies between 0 and that difference, and otherwise it is
  exactly 0; in the second case the function cannot halt. The same holds for
  \<open>scrollbarHorizontal\<close> on the other axis. The container is any slot and the context is any
  context, so this holds on every frame for every container that is processed.
\<close>

theorem scrollbar_leaves_scroll_in_range:
  "(scrollbarVertical E cnt b cs c = Inr c' \<longrightarrow>
      (if 0 < sub64 (Y cs) (Dy b) \<and> 0 < Dy b
       then 0 \<le> Y (Scroll (containers c' cnt)) \<and>
            Y (Scroll (containers c' cnt)) \<le> sub64 (Y cs) (Dy b)
       else Y (Scroll (containers c' cnt)) = 0)) \<and>
   (scrollbarHorizontal E cnt b cs c = Inr c'' \<longrightarrow>
      (if 0 < sub64 (X cs) (Dx b) \<and> 0 < Dx b
       then 0 \<le> X (Scroll (containers c'' cnt)) \<and>
            X (Scroll (containers c'' cnt)) \<le> sub64 (X cs) (Dx b)
       else X (Scroll (containers c'' cnt)) = 0)) \<and>
   (\<not> (0 < sub64 (Y cs) (Dy b) \<and> 0 < Dy b) \<longrightarrow>
      scrollbarVertical E cnt b cs c = Inr (setScrollY cnt 0 c)) \<and>
   (\<not> (0 < sub64 (X cs) (Dx b) \<and> 0 < Dx b) \<longrightarrow>
      scrollbarHorizontal E cnt b cs c = Inr (setScrollX cnt 0 c))"
proof (intro conjI impI)
  assume "scrollbarVertical E cnt b cs c = Inr c'"
  then show "if 0 < sub64 (Y cs) (Dy b) \<and> 0 < Dy b
       then 0 \<le> Y (Scroll (containers c' cnt)) \<and>
            Y (Scroll (containers c' cnt)) \<le> sub64 (Y cs) (Dy b)
       else Y (Scroll (containers c' cnt)) = 0"
    by (rule scrollbarVertical_range)
next
  assume "scrollbarHorizontal E cnt b cs c = Inr c''"
  then show "if 0 < sub64 (X cs) (Dx b) \<and> 0 < Dx b
       then 0 \<le> X (Scroll (containers c'' cnt)) \<and>
            X (Scroll (containers c'' cnt)) \<le> sub64 (X cs) (Dx b)
       else X (Scroll (containers c'' cnt)) = 0"
    by (rule scrollbarHorizontal_range)
next
  assume "\<not> (0 < sub64 (Y cs) (Dy b) \<and> 0 < Dy b)"
  then show "scrollbarVertical E cnt b cs c = Inr (setScrollY cnt 0 c)"
    by (rule scrollbarVertical_else)
next
  assume "\<not> (0 < sub64 (X cs) (Dx b) \<and> 0 < Dx b)"
  then show "scrollbarHorizontal E cnt b cs c = Inr (setScrollX cnt 0 c)"
    by (rule scrollbarHorizontal_else)
qed

theorem scrollbar_leaves_scroll_in_range_witness:
  "\<not> isl (scrollbarVertical env0 0 (Rect 0 0 100 50) (Pt 300 200) scrollCtx) \<and>
   \<not> isl (scrollbarHorizontal env0 0 (Rect 0 0 100 50) (Pt 300 200) scrollCtx) \<and>
   0 < sub64 (Y (Pt 300 200)) (Dy (Rect 0 0 100 50)) \<and> 0 < Dy (Rect 0 0 100 50) \<and>
   0 < sub64 (X (Pt 300 200)) (Dx (Rect 0 0 100 50)) \<and> 0 < Dx (Rect 0 0 100 50) \<and>
   Y (Scroll (containers scrollCtx 0)) = 170 \<and>
   Y (Scroll (containers
        (projr (scrollbarVertical env0 0 (Rect 0 0 100 50) (Pt 300 200) scrollCtx)) 0))
     \<le> sub64 (Y (Pt 300 200)) (Dy (Rect 0 0 100 50)) \<and>
   X (Scroll (containers scrollCtx 0)) = 500 \<and>
   X (Scroll (containers
        (projr (scrollbarHorizontal env0 0 (Rect 0 0 100 50) (Pt 300 200) scrollCtx)) 0))
     \<le> sub64 (X (Pt 300 200)) (Dx (Rect 0 0 100 50)) \<and>
   \<not> (0 < sub64 (Y (Pt 30 20)) (Dy (Rect 0 0 100 50)) \<and> 0 < Dy (Rect 0 0 100 50)) \<and>
   scrollbarVertical env0 0 (Rect 0 0 100 50) (Pt 30 20) scrollCtx
     = Inr (setScrollY 0 0 scrollCtx) \<and>
   \<not> (0 < sub64 (X (Pt 30 20)) (Dx (Rect 0 0 100 50)) \<and> 0 < Dx (Rect 0 0 100 50)) \<and>
   scrollbarHorizontal env0 0 (Rect 0 0 100 50) (Pt 30 20) scrollCtx
     = Inr (setScrollX 0 0 scrollCtx)"
proof -
  let ?v = "scrollbarVertical env0 0 (Rect 0 0 100 50) (Pt 300 200) scrollCtx"
  let ?h = "scrollbarHorizontal env0 0 (Rect 0 0 100 50) (Pt 300 200) scrollCtx"
  have rv: "\<not> isl ?v" by code_simp
  have rh: "\<not> isl ?h" by code_simp
  have ev: "?v = Inr (projr ?v)" using rv by simp
  have eh: "?h = Inr (projr ?h)" using rh by simp
  have cy: "0 < sub64 (Y (Pt 300 200)) (Dy (Rect 0 0 100 50)) \<and> 0 < Dy (Rect 0 0 100 50)"
    by code_simp
  have cx: "0 < sub64 (X (Pt 300 200)) (Dx (Rect 0 0 100 50)) \<and> 0 < Dx (Rect 0 0 100 50)"
    by code_simp
  have ny: "\<not> (0 < sub64 (Y (Pt 30 20)) (Dy (Rect 0 0 100 50)) \<and> 0 < Dy (Rect 0 0 100 50))"
    by code_simp
  have nx: "\<not> (0 < sub64 (X (Pt 30 20)) (Dx (Rect 0 0 100 50)) \<and> 0 < Dx (Rect 0 0 100 50))"
    by code_simp
  have s0: "Y (Scroll (containers scrollCtx 0)) = 170" "X (Scroll (containers scrollCtx 0)) = 500"
    by code_simp+
  note big = scrollbar_leaves_scroll_in_range
         [of env0 0 "Rect 0 0 100 50" "Pt 300 200" scrollCtx "projr ?v" "projr ?h"]
  note small = scrollbar_leaves_scroll_in_range
         [of env0 0 "Rect 0 0 100 50" "Pt 30 20" scrollCtx scrollCtx scrollCtx]
  have by1: "Y (Scroll (containers (projr ?v) 0)) \<le> sub64 (Y (Pt 300 200)) (Dy (Rect 0 0 100 50))"
    using big ev cy by (simp only: if_True simp_thms)
  have bx1: "X (Scroll (containers (projr ?h) 0)) \<le> sub64 (X (Pt 300 200)) (Dx (Rect 0 0 100 50))"
    using big eh cx by (simp only: if_True simp_thms)
  have e1: "scrollbarVertical env0 0 (Rect 0 0 100 50) (Pt 30 20) scrollCtx
              = Inr (setScrollY 0 0 scrollCtx)"
    using small ny by blast
  have e2: "scrollbarHorizontal env0 0 (Rect 0 0 100 50) (Pt 30 20) scrollCtx
              = Inr (setScrollX 0 0 scrollCtx)"
    using small nx by blast
  show ?thesis
    using rv rh cy cx s0 by1 bx1 ny e1 nx e2 by (intro conjI) blast+
qed

section \<open>A text box holds its focus\<close>

lemma hold_bit: "(NOT (opt OR OptHoldFocus) AND OptHoldFocus) = 0"
  by (simp add: bit_eq_iff bit_simps)

lemma draw_focus: "draw E d c = Inr c' \<Longrightarrow> focus c' = focus c \<and> keepFocus c' = keepFocus c"
  by (auto simp: draw_def split: sum.splits)

lemma pushClipRect_focus:
  "pushClipRect r c = Inr c' \<Longrightarrow> focus c' = focus c \<and> keepFocus c' = keepFocus c"
  by (auto simp: pushClipRect_def split: sum.splits)

lemma popClipRect_focus:
  "popClipRect c = Inr c' \<Longrightarrow> focus c' = focus c \<and> keepFocus c' = keepFocus c"
  by (auto simp: popClipRect_def split: if_splits)

lemma drawControlFrame_focus:
  "drawControlFrame E i r col opt c = Inr c' \<Longrightarrow> focus c' = focus c \<and> keepFocus c' = keepFocus c"
  by (auto simp: drawControlFrame_def dest: draw_focus split: if_splits)

lemma drawControlText_focus:
  assumes "drawControlText E str r col opt c = Inr c'"
  shows "focus c' = focus c \<and> keepFocus c' = keepFocus c"
proof -
  from assms obtain c1 c2 d where a: "pushClipRect r c = Inr c1" "draw E d c1 = Inr c2"
      "popClipRect c2 = Inr c'"
    by (auto simp: drawControlText_def Let_def split: sum.splits)
  show ?thesis
    using pushClipRect_focus[OF a(1)] draw_focus[OF a(2)] popClipRect_focus[OF a(3)] by simp
qed

lemma store_buf_focus: "focus (store_buf bp s c) = focus c \<and> keepFocus (store_buf bp s c) = keepFocus c"
  by (simp add: store_buf_def split: bufptr.splits)

lemma updateControl_held:
  assumes "updateControl i r opt c = Inr c2" and "focus c = i"
    and "(NOT opt AND OptHoldFocus) = 0"
  shows "(focus c2 \<noteq> i \<longrightarrow> mousePressed c \<noteq> 0 \<and> mouseOver r c = Inr False) \<and>
         keyPressed c2 = keyPressed c \<and> (i \<noteq> 0 \<longrightarrow> keepFocus c2)"
  using assms
  by (auto simp: updateControl_def Let_def SetFocus_def split: if_splits sum.splits)

lemma input_focus:
  assumes "textBoxRaw_input bp buf i c = (res, buf1, c1)"
  shows "focus c1 = (if focus c = i \<and> (keyPressed c AND keyReturn) \<noteq> 0 then 0 else focus c) \<and>
         (keepFocus c \<longrightarrow> keepFocus c1) \<and>
         ((res AND ResponseSubmit) \<noteq> 0 \<longrightarrow> focus c = i \<and> (keyPressed c AND keyReturn) \<noteq> 0)"
  using assms
  by (auto simp: textBoxRaw_input_def Let_def SetFocus_def store_buf_focus ResponseSubmit_def
       ResponseChange_def split: if_splits)

lemma textBoxRaw_draw_focus:
  assumes "textBoxRaw_draw E buf i opt r c = Inr c'"
  shows "focus c' = focus c \<and> keepFocus c' = keepFocus c"
proof -
  from assms obtain c4 where
    c4: "drawControlFrame E i r ColorBase opt c = Inr c4"
    and rest: "(\<exists>c5 c6 c7 d1 d2. pushClipRect r c4 = Inr c5 \<and> draw E d1 c5 = Inr c6 \<and>
                  draw E d2 c6 = Inr c7 \<and> popClipRect c7 = Inr c') \<or>
               drawControlText E buf r ColorText opt c4 = Inr c'"
    unfolding textBoxRaw_draw_def Let_def
    by (auto split: sum.splits if_splits)
  have f4: "focus c4 = focus c \<and> keepFocus c4 = keepFocus c"
    using drawControlFrame_focus[OF c4] .
  from rest have "focus c' = focus c4 \<and> keepFocus c' = keepFocus c4"
  proof
    assume "\<exists>c5 c6 c7 d1 d2. pushClipRect r c4 = Inr c5 \<and> draw E d1 c5 = Inr c6 \<and>
                  draw E d2 c6 = Inr c7 \<and> popClipRect c7 = Inr c'"
    then obtain c5 c6 c7 d1 d2 where a: "pushClipRect r c4 = Inr c5" "draw E d1 c5 = Inr c6"
       "draw E d2 c6 = Inr c7" "popClipRect c7 = Inr c'" by blast
    show ?thesis
      using pushClipRect_focus[OF a(1)] draw_focus[OF a(2)] draw_focus[OF a(3)]
            popClipRect_focus[OF a(4)] by simp
  next
    assume "drawControlText E buf r ColorText opt c4 = Inr c'"
    then show ?thesis by (rule drawControlText_focus)
  qed
  with f4 show ?thesis by simp
qed

lemma mouseOver_layoutStack: "mouseOver r (c\<lparr>layoutStack := ls\<rparr>) = mouseOver r c"
  by (simp add: mouseOver_def clipRect_def inHoverRoot_def)

lemma textBoxRaw_focus:
  assumes run: "textBoxRaw E bp buf i opt c = Inr (res, buf', c')"
    and lay: "layoutNext E c = Inr (r, ls)"
    and foc: "focus c = i"
  shows "(focus c' \<noteq> i \<longrightarrow>
            (mousePressed c \<noteq> 0 \<and> mouseOver r c = Inr False) \<or> (keyPressed c AND keyReturn) \<noteq> 0) \<and>
         (i \<noteq> 0 \<longrightarrow> keepFocus c')"
proof -
  from run lay obtain c2 where
    uc: "updateControl i r (opt OR OptHoldFocus) (c\<lparr>layoutStack := ls\<rparr>) = Inr c2"
    and body: "textBoxRaw_body E bp buf i opt r c2 = Inr (res, buf', c')"
    by (auto simp: textBoxRaw_def Control_def split: sum.splits)
  from body obtain c3 where
    inp: "textBoxRaw_input bp buf i c2 = (res, buf', c3)"
    and drw: "textBoxRaw_draw E buf' i opt r c3 = Inr c'"
    by (auto simp: textBoxRaw_body_def split: sum.splits prod.splits)
  have u: "(focus c2 \<noteq> i \<longrightarrow> mousePressed c \<noteq> 0 \<and> mouseOver r c = Inr False) \<and>
         keyPressed c2 = keyPressed c \<and> (i \<noteq> 0 \<longrightarrow> keepFocus c2)"
    using updateControl_held[OF uc _ hold_bit] foc by (simp add: mouseOver_layoutStack)
  show ?thesis
    using u input_focus[OF inp] textBoxRaw_draw_focus[OF drw] by (auto split: if_splits)
qed

lemma flag_mask:
  "(opt OR OptHoldFocus) AND OptNoFrame = opt AND OptNoFrame"
  "(opt OR OptHoldFocus) AND OptAlignCenter = opt AND OptAlignCenter"
  "(opt OR OptHoldFocus) AND OptAlignRight = opt AND OptAlignRight"
  by (simp_all add: bit.conj_disj_distrib2 OptHoldFocus_def OptNoFrame_def OptAlignCenter_def
       OptAlignRight_def)

lemma drawControlFrame_hold:
  "drawControlFrame E i r col (opt OR OptHoldFocus) c = drawControlFrame E i r col opt c"
  by (simp add: drawControlFrame_def flag_mask)

lemma drawControlText_hold:
  "drawControlText E str r col (opt OR OptHoldFocus) c = drawControlText E str r col opt c"
  unfolding drawControlText_def flag_mask by (rule refl)

lemma textBoxRaw_draw_hold:
  "textBoxRaw_draw E buf i (opt OR OptHoldFocus) r c = textBoxRaw_draw E buf i opt r c"
  unfolding textBoxRaw_draw_def drawControlFrame_hold drawControlText_hold by (rule refl)

lemma textBoxRaw_hold:
  "textBoxRaw E bp buf i (opt OR OptHoldFocus) c = textBoxRaw E bp buf i opt c"
proof -
  have "(opt OR OptHoldFocus) OR OptHoldFocus = opt OR OptHoldFocus"
    by (simp add: or.assoc)
  then show ?thesis
    unfolding textBoxRaw_def textBoxRaw_body_def textBoxRaw_draw_hold by simp
qed

lemma end_steps_focus:
  assumes "end_steps c = Inr c'"
  shows "focus c' = (if keepFocus c then focus c else 0)"
  using assms
  by (auto simp: end_steps_def end_before_patch_def Let_def bringToFront_def
        split: option.splits sum.splits if_splits)

lemma ctx_end_focus:
  assumes "ctx_end c = Inr c'"
  shows "focus c' = (if keepFocus c then focus c else 0)"
  using assms end_steps_focus
  by (auto simp: ctx_end_def expect_def split: if_splits)

text \<open>
  Claim C9 as stated fails in its list of the ways a text box loses focus: a press inside the
  rectangle clears the focus as well, when the pointer does not count as over the control. In
  the context below the focused text box lies under another window, which is the hover root;
  the button is pressed at a point inside the text box's rectangle, the return key is not
  pressed, the text box is visited, and it comes back without focus.
\<close>

theorem textBox_loses_focus_on_press_inside_rectangle:
  "focus coveredTextBoxCtx = 5 \<and>
   layoutNext env0 coveredTextBoxCtx = Inr (Rect 0 0 100 20, []) \<and>
   PtIn (mousePos coveredTextBoxCtx) (Rect 0 0 100 20) \<and>
   mousePressed coveredTextBoxCtx \<noteq> 0 \<and>
   (keyPressed coveredTextBoxCtx AND keyReturn) = 0 \<and>
   \<not> isl (textBoxRaw env0 CallerBuf ''abc'' 5 0 coveredTextBoxCtx) \<and>
   focus (snd (snd (projr (textBoxRaw env0 CallerBuf ''abc'' 5 0 coveredTextBoxCtx)))) = 0"
  by code_simp

text \<open>
  Claim C9, amended. \<open>textBoxRaw\<close>, and \<open>textBoxEx\<close> which calls it, update the control with the
  hold-focus option forced on: the result is the same whether or not the caller supplied that
  option. Consequently a text box that has focus when it is visited still has it when the call
  returns, unless a button was pressed in this frame while the pointer was not over the control
  (outside its rectangle, outside the clip rectangle, or in a container that is not under the
  hover root) or the return key was pressed; the release of the button alone never takes the
  focus away. A text box with a non-zero identity also marks its focus as kept, and the end of
  the frame clears the focus exactly when no visited control marked it.
\<close>

theorem textBox_keeps_focus_unless_pressed_elsewhere_or_return:
  assumes run: "textBoxRaw E bp buf i opt c = Inr (res, buf', c')"
    and lay: "layoutNext E c = Inr (r, ls)"
    and foc: "focus c = i"
  shows "textBoxRaw E bp buf i (opt OR OptHoldFocus) c = textBoxRaw E bp buf i opt c \<and>
         textBoxEx E addr buf (opt OR OptHoldFocus) c = textBoxEx E addr buf opt c \<and>
         (focus c' \<noteq> i \<longrightarrow>
            (mousePressed c \<noteq> 0 \<and> mouseOver r c = Inr False) \<or>
            (keyPressed c AND keyReturn) \<noteq> 0) \<and>
         (mousePressed c = 0 \<and> (keyPressed c AND keyReturn) = 0 \<longrightarrow> focus c' = i) \<and>
         (i \<noteq> 0 \<longrightarrow> keepFocus c') \<and>
         (\<forall>c1 c2. ctx_end c1 = Inr c2 \<longrightarrow> focus c2 = (if keepFocus c1 then focus c1 else 0))"
proof -
  have ex: "textBoxEx E addr buf (opt OR OptHoldFocus) c = textBoxEx E addr buf opt c"
    by (simp add: textBoxEx_def textBoxRaw_hold split: prod.splits)
  show ?thesis
    using textBoxRaw_focus[OF run lay foc] textBoxRaw_hold ex ctx_end_focus by blast
qed

theorem textBox_keeps_focus_unless_pressed_elsewhere_or_return_witness:
  "\<not> isl (textBoxRaw env0 CallerBuf ''abc'' 5 0 releasedTextBoxCtx) \<and>
   layoutNext env0 releasedTextBoxCtx = Inr (Rect 0 0 100 20, []) \<and>
   focus releasedTextBoxCtx = 5 \<and> mouseDown releasedTextBoxCtx = 0 \<and>
   mousePressed releasedTextBoxCtx = 0 \<and> (keyPressed releasedTextBoxCtx AND keyReturn) = 0 \<and>
   focus (snd (snd (projr (textBoxRaw env0 CallerBuf ''abc'' 5 0 releasedTextBoxCtx)))) = 5 \<and>
   keepFocus (snd (snd (projr (textBoxRaw env0 CallerBuf ''abc'' 5 0 releasedTextBoxCtx)))) \<and>
   \<not> isl (ctx_end (ctx0\<lparr>focus := 5\<rparr>)) \<and> \<not> keepFocus (ctx0\<lparr>focus := 5\<rparr>) \<and>
   focus (projr (ctx_end (ctx0\<lparr>focus := 5\<rparr>))) = 0"
proof -
  let ?t = "textBoxRaw env0 CallerBuf ''abc'' 5 0 releasedTextBoxCtx"
  have ok: "\<not> isl ?t" by code_simp
  then have run: "?t = Inr (fst (projr ?t), fst (snd (projr ?t)), snd (snd (projr ?t)))"
    by simp
  have lay: "layoutNext env0 releasedTextBoxCtx = Inr (Rect 0 0 100 20, [])" by code_simp
  have foc: "focus releasedTextBoxCtx = 5" by code_simp
  have inp: "mouseDown releasedTextBoxCtx = 0" "mousePressed releasedTextBoxCtx = 0"
    "(keyPressed releasedTextBoxCtx AND keyReturn) = 0"
    by code_simp+
  have e: "\<not> isl (ctx_end (ctx0\<lparr>focus := 5\<rparr>))" "\<not> keepFocus (ctx0\<lparr>focus := 5\<rparr>)"
    by code_simp+
  then have erun: "ctx_end (ctx0\<lparr>focus := 5\<rparr>) = Inr (projr (ctx_end (ctx0\<lparr>focus := 5\<rparr>)))"
    by simp
  note main = textBox_keeps_focus_unless_pressed_elsewhere_or_return [OF run lay foc]
  from main inp have f: "focus (snd (snd (projr ?t))) = 5" by blast
  from main have k: "keepFocus (snd (snd (projr ?t)))" by simp
  from main erun e(2) have z: "focus (projr (ctx_end (ctx0\<lparr>focus := 5\<rparr>))) = 0"
    by (metis (full_types))
  show ?thesis
    using ok lay foc inp f k e z by (intro conjI) blast+
qed

section \<open>A number field whose text is no number\<close>

lemma numberTextBox_halts_iff:
  "isl (numberTextBox E fmt parse v i c) \<longleftrightarrow>
     numberEdit (numberTextBox_start fmt v i c) = i \<and>
     isl (textBoxRaw E NumberEditBufField (numberEditBuf (numberTextBox_start fmt v i c)) i 0
            (numberTextBox_start fmt v i c))"
  by (auto simp: numberTextBox_def Let_def split: sum.splits prod.splits)

text \<open>
  Claim C8. A number field is in text-edit mode when, after the check for a shift-click, the
  identity being edited is its own. When its text box then returns and the buffer is committed
  (the text box reports a submit, which the return key causes, or the field no longer has
  focus) and the buffer does not parse, \<open>numberTextBox\<close> returns normally with the bound value
  set to zero, whatever value the parser returned with its error, and leaves text-edit mode.
  Whether \<open>numberTextBox\<close> halts does not depend on the parser at all: it halts only when its
  text box does.
\<close>

theorem numberTextBox_parse_failure_gives_zero:
  assumes edit: "numberEdit (numberTextBox_start fmt v i c) = i"
    and tb: "textBoxRaw E NumberEditBufField (numberEditBuf (numberTextBox_start fmt v i c)) i 0
               (numberTextBox_start fmt v i c) = Inr (res, buf, c2)"
    and commit: "(res AND ResponseSubmit) \<noteq> 0 \<or> focus c2 \<noteq> i"
    and bad: "snd (parse (numberEditBuf c2))"
  shows "numberTextBox E fmt parse v i c = Inr (True, 0, c2\<lparr>numberEdit := 0\<rparr>) \<and>
         (\<forall>p. isl (numberTextBox E fmt p v i c) = isl (numberTextBox E fmt parse v i c))"
proof -
  have "numberTextBox E fmt parse v i c = Inr (True, 0, c2\<lparr>numberEdit := 0\<rparr>)"
    using edit tb commit bad
    by (auto simp: numberTextBox_def Let_def split: prod.splits)
  then show ?thesis using tb by (simp add: numberTextBox_halts_iff)
qed

theorem numberTextBox_parse_failure_gives_zero_witness:
  "numberEdit (numberTextBox_start fmt0 7 5 numEditCtx) = 5 \<and>
   \<not> isl (textBoxRaw env0 NumberEditBufField
            (numberEditBuf (numberTextBox_start fmt0 7 5 numEditCtx)) 5 0
            (numberTextBox_start fmt0 7 5 numEditCtx)) \<and>
   (fst (projr (textBoxRaw env0 NumberEditBufField
            (numberEditBuf (numberTextBox_start fmt0 7 5 numEditCtx)) 5 0
            (numberTextBox_start fmt0 7 5 numEditCtx))) AND ResponseSubmit) \<noteq> 0 \<and>
   parse0 (numberEditBuf (snd (snd (projr (textBoxRaw env0 NumberEditBufField
            (numberEditBuf (numberTextBox_start fmt0 7 5 numEditCtx)) 5 0
            (numberTextBox_start fmt0 7 5 numEditCtx)))))) = (99, True) \<and>
   \<not> isl (numberTextBox env0 fmt0 parse0 7 5 numEditCtx) \<and>
   fst (snd (projr (numberTextBox env0 fmt0 parse0 7 5 numEditCtx))) = 0"
proof -
  let ?c1 = "numberTextBox_start fmt0 7 5 numEditCtx"
  let ?t = "textBoxRaw env0 NumberEditBufField (numberEditBuf ?c1) 5 0 ?c1"
  have edit: "numberEdit ?c1 = 5" by code_simp
  have ok: "\<not> isl ?t" by code_simp
  then have tb: "?t = Inr (fst (projr ?t), fst (snd (projr ?t)), snd (snd (projr ?t)))"
    by simp
  have sub: "(fst (projr ?t) AND ResponseSubmit) \<noteq> 0" by code_simp
  have p: "parse0 (numberEditBuf (snd (snd (projr ?t)))) = (99, True)" by code_simp
  then have bad: "snd (parse0 (numberEditBuf (snd (snd (projr ?t)))))" by simp
  have commit: "(fst (projr ?t) AND ResponseSubmit) \<noteq> 0 \<or> focus (snd (snd (projr ?t))) \<noteq> 5"
    using sub by simp
  from numberTextBox_parse_failure_gives_zero
         [of fmt0 7 5 numEditCtx env0 "fst (projr ?t)" "fst (snd (projr ?t))"
             "snd (snd (projr ?t))" parse0, OF edit tb commit bad]
  have r: "numberTextBox env0 fmt0 parse0 7 5 numEditCtx
             = Inr (True, 0, (snd (snd (projr ?t)))\<lparr>numberEdit := 0\<rparr>)"
    by blast
  then have "\<not> isl (numberTextBox env0 fmt0 parse0 7 5 numEditCtx)"
    and "fst (snd (projr (numberTextBox env0 fmt0 parse0 7 5 numEditCtx))) = 0"
    by simp_all
  with edit ok sub p show ?thesis by (intro conjI) blast+
qed

section \<open>The patching loop of the frame end\<close>

lemma set_dst_ok:
  "0 \<le> idx \<Longrightarrow> idx < int (length cmds) \<Longrightarrow>
   set_dst idx v cmds = Inr (cmds[nat idx := (cmds ! nat idx)\<lparr>dstIdx := v\<rparr>])"
  by (simp add: set_dst_def)

lemma patch_loop_end: "length rs \<le> i \<Longrightarrow> patch_loop rs i cmds = Inr cmds"
  by (subst patch_loop.simps) simp

lemma tails_ok_upd: "tails_ok rs cmds \<Longrightarrow> tails_ok rs (cmds[k := v])"
  by (simp add: tails_ok_def)

lemma patch_loop_tail:
  assumes "distinct (map TailIdx rs)" and "tails_ok rs cmds" and "0 < i" and "i < length rs"
  shows "\<exists>cmds'. patch_loop rs i cmds = Inr cmds' \<and> length cmds' = length cmds \<and>
           (\<forall>j. i - 1 \<le> j \<and> j < length rs \<longrightarrow>
                cmds' ! nat (TailIdx (rs ! j)) =
                  (cmds ! nat (TailIdx (rs ! j)))\<lparr>dstIdx := jump_target rs (int (length cmds)) j\<rparr>) \<and>
           (\<forall>k. (\<forall>j. i - 1 \<le> j \<and> j < length rs \<longrightarrow> k \<noteq> nat (TailIdx (rs ! j))) \<longrightarrow>
                cmds' ! k = cmds ! k)"
  using assms
proof (induction "length rs - i" arbitrary: i cmds)
  case 0
  then show ?case by simp
next
  case (Suc d)
  let ?n = "length rs"
  let ?T = "\<lambda>j. TailIdx (rs ! j)"
  have rng: "\<And>j. j < ?n \<Longrightarrow> 0 \<le> ?T j \<and> ?T j < int (length cmds)"
    using Suc.prems(2) by (simp add: tails_ok_def)
  have rngn: "\<And>j. j < ?n \<Longrightarrow> nat (?T j) < length cmds"
    using rng by (simp add: nat_less_iff)
  have inj: "\<And>j k. j < ?n \<Longrightarrow> k < ?n \<Longrightarrow> j \<noteq> k \<Longrightarrow> nat (?T j) \<noteq> nat (?T k)"
  proof -
    fix j k assume a: "j < ?n" "k < ?n" "j \<noteq> k"
    then have "?T j \<noteq> ?T k"
      using Suc.prems(1) by (metis distinct_conv_nth length_map nth_map)
    with rng[OF a(1)] rng[OF a(2)] show "nat (?T j) \<noteq> nat (?T k)" by (simp add: nat_eq_iff)
  qed
  define cmds1 where
    "cmds1 = cmds[nat (?T (i - 1)) := (cmds ! nat (?T (i - 1)))\<lparr>dstIdx := add64 (HeadIdx (rs ! i)) 1\<rparr>]"
  have i1: "i - 1 < ?n" using Suc.prems by simp
  have s1: "set_dst (?T (i - 1)) (add64 (HeadIdx (rs ! i)) 1) cmds = Inr cmds1"
    using rng[OF i1] by (simp add: set_dst_ok cmds1_def)
  have l1: "length cmds1 = length cmds" by (simp add: cmds1_def)
  have jt1: "jump_target rs (int (length cmds)) (i - 1) = add64 (HeadIdx (rs ! i)) 1"
    using Suc.prems by (simp add: jump_target_def)
  show ?case
  proof (cases "i = ?n - 1")
    case True
    define cmds2 where
      "cmds2 = cmds1[nat (?T i) := (cmds1 ! nat (?T i))\<lparr>dstIdx := int (length cmds1)\<rparr>]"
    have s2: "set_dst (?T i) (int (length cmds1)) cmds1 = Inr cmds2"
      using rng[of i] Suc.prems l1 by (simp add: set_dst_ok cmds2_def)
    have res: "patch_loop rs i cmds = Inr cmds2"
      using Suc.prems True s1 s2
      by (subst patch_loop.simps) (simp add: Let_def patch_loop_end)
    have "\<not> i + 1 < ?n" using True Suc.prems by linarith
    then have jt2: "jump_target rs (int (length cmds)) i = int (length cmds)"
      unfolding jump_target_def by (simp only: if_False)
    have ne: "nat (?T (i - 1)) \<noteq> nat (?T i)"
      using inj[of "i - 1" i] Suc.prems by simp
    have a: "\<forall>j. i - 1 \<le> j \<and> j < ?n \<longrightarrow>
                cmds2 ! nat (?T j) = (cmds ! nat (?T j))\<lparr>dstIdx := jump_target rs (int (length cmds)) j\<rparr>"
    proof (intro allI impI)
      fix j assume j: "i - 1 \<le> j \<and> j < ?n"
      then consider "j = i - 1" | "j = i" using True by linarith
      then show "cmds2 ! nat (?T j) = (cmds ! nat (?T j))\<lparr>dstIdx := jump_target rs (int (length cmds)) j\<rparr>"
      proof cases
        case 1
        then show ?thesis
          using ne rngn[OF i1] jt1 by (simp add: cmds2_def cmds1_def)
      next
        case 2
        then show ?thesis
          using ne rngn[of i] Suc.prems jt2 l1 by (simp add: cmds2_def cmds1_def)
      qed
    qed
    have b: "\<forall>k. (\<forall>j. i - 1 \<le> j \<and> j < ?n \<longrightarrow> k \<noteq> nat (?T j)) \<longrightarrow> cmds2 ! k = cmds ! k"
    proof (intro allI impI)
      fix k assume k: "\<forall>j. i - 1 \<le> j \<and> j < ?n \<longrightarrow> k \<noteq> nat (?T j)"
      then have "k \<noteq> nat (?T (i - 1))" "k \<noteq> nat (?T i)"
        using Suc.prems by auto
      then show "cmds2 ! k = cmds ! k" by (simp add: cmds2_def cmds1_def)
    qed
    show ?thesis using res a b l1 by (simp add: cmds2_def)
  next
    case False
    then have lt: "i + 1 < ?n" using Suc.prems by simp
    have d: "d = ?n - (i + 1)" using Suc.hyps(2) by simp
    have t1: "tails_ok rs cmds1" using Suc.prems(2) by (simp add: cmds1_def tails_ok_upd)
    from Suc.hyps(1)[OF d Suc.prems(1) t1 _ lt]
    obtain cmds' where ih: "patch_loop rs (i + 1) cmds1 = Inr cmds'" "length cmds' = length cmds1"
      "\<forall>j. i \<le> j \<and> j < ?n \<longrightarrow>
          cmds' ! nat (?T j) = (cmds1 ! nat (?T j))\<lparr>dstIdx := jump_target rs (int (length cmds1)) j\<rparr>"
      "\<forall>k. (\<forall>j. i \<le> j \<and> j < ?n \<longrightarrow> k \<noteq> nat (?T j)) \<longrightarrow> cmds' ! k = cmds1 ! k"
      by auto
    have res: "patch_loop rs i cmds = Inr cmds'"
      using Suc.prems False s1 ih(1)
      by (subst patch_loop.simps) (simp add: Let_def)
    have a: "\<forall>j. i - 1 \<le> j \<and> j < ?n \<longrightarrow>
                cmds' ! nat (?T j) = (cmds ! nat (?T j))\<lparr>dstIdx := jump_target rs (int (length cmds)) j\<rparr>"
    proof (intro allI impI)
      fix j assume j: "i - 1 \<le> j \<and> j < ?n"
      show "cmds' ! nat (?T j) = (cmds ! nat (?T j))\<lparr>dstIdx := jump_target rs (int (length cmds)) j\<rparr>"
      proof (cases "j = i - 1")
        case True
        have "\<forall>j'. i \<le> j' \<and> j' < ?n \<longrightarrow> nat (?T j) \<noteq> nat (?T j')"
        proof (intro allI impI)
          fix j' assume "i \<le> j' \<and> j' < ?n"
          then have "j \<noteq> j'" "j' < ?n" using True Suc.prems(3) by auto
          then show "nat (?T j) \<noteq> nat (?T j')" using inj[of j j'] True i1 by simp
        qed
        then have "cmds' ! nat (?T j) = cmds1 ! nat (?T j)" using ih(4) by blast
        then show ?thesis using True rngn[OF i1] jt1 by (simp add: cmds1_def)
      next
        case False
        then have ij: "i \<le> j" using j by linarith
        have "nat (?T j) \<noteq> nat (?T (i - 1))" using inj[of j "i - 1"] j i1 False by simp
        then have "cmds1 ! nat (?T j) = cmds ! nat (?T j)" by (simp add: cmds1_def)
        then show ?thesis using ih(3) ij j l1 by simp
      qed
    qed
    have b: "\<forall>k. (\<forall>j. i - 1 \<le> j \<and> j < ?n \<longrightarrow> k \<noteq> nat (?T j)) \<longrightarrow> cmds' ! k = cmds ! k"
    proof (intro allI impI)
      fix k assume k: "\<forall>j. i - 1 \<le> j \<and> j < ?n \<longrightarrow> k \<noteq> nat (?T j)"
      then have k1: "k \<noteq> nat (?T (i - 1))" using i1 by auto
      have "\<forall>j. i \<le> j \<and> j < ?n \<longrightarrow> k \<noteq> nat (?T j)"
      proof (intro allI impI)
        fix j assume "i \<le> j \<and> j < ?n"
        then have "i - 1 \<le> j \<and> j < ?n" by linarith
        then show "k \<noteq> nat (?T j)" using k by blast
      qed
      then have "cmds' ! k = cmds1 ! k" using ih(4) by blast
      then show "cmds' ! k = cmds ! k" using k1 by (simp add: cmds1_def)
    qed
    show ?thesis using res a b ih(2) l1 by simp
  qed
qed


section \<open>The stack checks of the frame end\<close>












section \<open>The layout of a frame in the command buffer\<close>

lemma length_emit: "length (emit off ds) = size_decls ds"
  by (induction off ds rule: emit.induct) auto

lemma spans_roots: "map fst (spans off ds) = roots_of ds"
  by (induction off ds rule: spans.induct) auto

lemma spans_range:
  "(p, h, t, b) \<in> set (spans off ds) \<Longrightarrow>
     off \<le> h \<and> t = h + 1 + size_decls b \<and> t < off + size_decls ds"
  by (induction off ds rule: spans.induct) fastforce+

lemma spans_tails_distinct: "distinct (map (\<lambda>(p, h, t, b). t) (spans off ds))"
proof (induction off ds rule: spans.induct)
  case (3 off cnt inner ds)
  have a: "\<And>x. x \<in> set (spans (off + 1) inner) \<Longrightarrow> (\<lambda>(p, h, t, b). t) x < off + 1 + size_decls inner"
    using spans_range[of _ _ _ _ "off + 1" inner] by fastforce
  have b: "\<And>x. x \<in> set (spans (off + 2 + size_decls inner) ds) \<Longrightarrow>
             off + 1 + size_decls inner < (\<lambda>(p, h, t, b). t) x"
    using spans_range[of _ _ _ _ "off + 2 + size_decls inner" ds] by fastforce
  show ?case using 3 a b by (fastforce simp: image_iff)
qed auto

lemma spans_emit:
  "(p, h, t, b) \<in> set (spans off ds) \<Longrightarrow>
     \<exists>i. h = off + i \<and> t = h + 1 + size_decls b \<and>
         emit off ds ! i = jump_command (int (t + 1)) \<and>
         emit off ds ! (i + 1 + size_decls b) = jump_command (- 1) \<and>
         (\<forall>k < size_decls b. emit off ds ! (i + 1 + k) = emit (h + 1) b ! k)"
proof (induction off ds arbitrary: p h t b rule: spans.induct)
  case (1 off)
  then show ?case by simp
next
  case (2 off q ds)
  from 2(2) have m: "(p, h, t, b) \<in> set (spans (off + 1) ds)" by simp
  from 2(1)[OF m] obtain i where i: "h = off + 1 + i" "t = h + 1 + size_decls b"
    "emit (off + 1) ds ! i = jump_command (int (t + 1))"
    "emit (off + 1) ds ! (i + 1 + size_decls b) = jump_command (- 1)"
    "\<forall>k < size_decls b. emit (off + 1) ds ! (i + 1 + k) = emit (h + 1) b ! k"
    by blast
  show ?case
    by (rule exI[of _ "Suc i"]) (use i in simp)
next
  case (3 off cnt inner ds)
  let ?s = "size_decls inner"
  from 3(3) consider
    (hd) "p = cnt" "h = off" "t = off + 1 + ?s" "b = inner"
    | (inn) "(p, h, t, b) \<in> set (spans (off + 1) inner)"
    | (rest) "(p, h, t, b) \<in> set (spans (off + 2 + ?s) ds)"
    by auto
  then show ?case
  proof cases
    case hd
    show ?thesis
      by (rule exI[of _ 0]) (use hd in \<open>simp add: nth_append length_emit\<close>)
  next
    case inn
    from 3(1)[OF inn] obtain i where i: "h = off + 1 + i" "t = h + 1 + size_decls b"
      "emit (off + 1) inner ! i = jump_command (int (t + 1))"
      "emit (off + 1) inner ! (i + 1 + size_decls b) = jump_command (- 1)"
      "\<forall>k < size_decls b. emit (off + 1) inner ! (i + 1 + k) = emit (h + 1) b ! k"
      by blast
    from spans_range[OF inn] i have lt: "i + 1 + size_decls b < ?s" by linarith
    then have lts: "i < ?s" "\<And>k. k < size_decls b \<Longrightarrow> i + 1 + k < ?s" by linarith+
    show ?thesis
      by (rule exI[of _ "Suc i"]) (use i lt lts in \<open>simp add: nth_append length_emit\<close>)
  next
    case rest
    from 3(2)[OF rest] obtain i where i: "h = off + 2 + ?s + i" "t = h + 1 + size_decls b"
      "emit (off + 2 + ?s) ds ! i = jump_command (int (t + 1))"
      "emit (off + 2 + ?s) ds ! (i + 1 + size_decls b) = jump_command (- 1)"
      "\<forall>k < size_decls b. emit (off + 2 + ?s) ds ! (i + 1 + k) = emit (h + 1) b ! k"
      by blast
    show ?thesis
      by (rule exI[of _ "Suc (?s + Suc i)"]) (use i in \<open>simp add: nth_append length_emit\<close>)
  qed
qed

lemma spans_body_of:
  "(p, h, t, b) \<in> set (spans off ds) \<Longrightarrow> distinct (roots_of ds) \<Longrightarrow> body_of p ds = b"
proof (induction off ds arbitrary: p h t b rule: spans.induct)
  case (3 off cnt inner ds)
  let ?s = "size_decls inner"
  from 3(3) consider
    (hd) "p = cnt" "b = inner"
    | (inn) "(p, h, t, b) \<in> set (spans (off + 1) inner)"
    | (rest) "(p, h, t, b) \<in> set (spans (off + 2 + ?s) ds)"
    by auto
  then show ?case
  proof cases
    case hd
    then show ?thesis by simp
  next
    case inn
    then have "p \<in> set (roots_of inner)"
      using spans_roots[of "off + 1" inner] by (metis fst_conv image_eqI set_map)
    then show ?thesis using 3(1)[OF inn] 3(4) by auto
  next
    case rest
    then have "p \<in> set (roots_of ds)"
      using spans_roots[of "off + 2 + ?s" ds] by (metis fst_conv image_eqI set_map)
    then show ?thesis using 3(2)[OF rest] 3(4) by auto
  qed
qed auto

lemma window_open_eq:
  "window_open cnt c =
     c\<lparr>containerStack := containerStack c @ [cnt], rootList := rootList c @ [cnt],
       commandList := commandList c @ [jump_command (- 1)],
       containers := (containers c)
         (cnt := (containers c cnt)\<lparr>HeadIdx := int (length (commandList c))\<rparr>)\<rparr>"
  by (simp add: window_open_def pushJump_def Let_def)

lemma window_close_eq:
  assumes "containerStack c = st @ [cnt]" and "HeadIdx (containers c cnt) = int h"
    and "h < length (commandList c)"
  shows "window_close c =
     Inr (c\<lparr>containers := (containers c)
              (cnt := (containers c cnt)\<lparr>TailIdx := int (length (commandList c))\<rparr>),
            commandList := (commandList c @ [jump_command (- 1)])
              [h := (commandList c ! h)\<lparr>dstIdx := int (length (commandList c)) + 1\<rparr>],
            containerStack := st\<rparr>)"
  using assms
  by (simp add: window_close_def CurrentContainer_def pushJump_def Let_def set_dst_def nth_append
      add.commute)

lemma run_decls_shape:
  "run_decls ds c = Inr c' \<Longrightarrow> distinct (roots_of ds) \<Longrightarrow>
     commandList c' = commandList c @ emit (length (commandList c)) ds \<and>
     rootList c' = rootList c @ roots_of ds \<and>
     containerStack c' = containerStack c \<and> clipStack c' = clipStack c \<and>
     idStack c' = idStack c \<and> layoutStack c' = layoutStack c \<and>
     (\<forall>p. p \<notin> set (roots_of ds) \<longrightarrow> containers c' p = containers c p) \<and>
     (\<forall>p. ZIndex (containers c' p) = ZIndex (containers c p)) \<and>
     (\<forall>(p, h, t, b) \<in> set (spans (length (commandList c)) ds).
         HeadIdx (containers c' p) = int h \<and> TailIdx (containers c' p) = int t)"
proof (induction ds c arbitrary: c' rule: run_decls.induct)
  case (1 c)
  then show ?case by simp
next
  case (2 p ds c)
  from 2(2) have r: "run_decls ds (c\<lparr>commandList := commandList c @ [prim_command p]\<rparr>) = Inr c'"
    by simp
  from 2(1)[OF r] 2(3) show ?case by simp
next
  case (3 cnt inner ds c)
  let ?off = "length (commandList c)"
  let ?s = "size_decls inner"
  let ?co = "window_open cnt c"
  from 3(3) obtain c1 c2 where
    r1: "run_decls inner ?co = Inr c1" and wc: "window_close c1 = Inr c2"
    and r2: "run_decls ds c2 = Inr c'"
    by (auto split: sum.splits)
  from 3(4) have d: "distinct (roots_of inner)" "distinct (roots_of ds)"
    "cnt \<notin> set (roots_of inner)" "cnt \<notin> set (roots_of ds)"
    "set (roots_of inner) \<inter> set (roots_of ds) = {}"
    by auto
  note ih1 = 3(1)[OF r1 d(1)]
  have lo: "length (commandList ?co) = ?off + 1" by (simp add: window_open_eq)
  have cl1: "commandList c1 = commandList c @ jump_command (- 1) # emit (?off + 1) inner"
    using ih1 lo by (simp add: window_open_eq)
  have st1: "containerStack c1 = containerStack c @ [cnt]"
    using ih1 by (simp add: window_open_eq)
  have h1: "HeadIdx (containers c1 cnt) = int ?off"
    using ih1 d(3) by (simp add: window_open_eq)
  have len1: "length (commandList c1) = ?off + 1 + ?s" using cl1 by (simp add: length_emit)
  have lt: "?off < length (commandList c1)" using len1 by simp
  note wce = window_close_eq[OF st1 h1 lt]
  have c2: "c2 = c1\<lparr>containers := (containers c1)
              (cnt := (containers c1 cnt)\<lparr>TailIdx := int (length (commandList c1))\<rparr>),
            commandList := (commandList c1 @ [jump_command (- 1)])
              [?off := (commandList c1 ! ?off)\<lparr>dstIdx := int (length (commandList c1)) + 1\<rparr>],
            containerStack := containerStack c\<rparr>"
    using wc wce by simp
  have cl2: "commandList c2 = commandList c @ jump_command (int (?off + 2 + ?s))
               # emit (?off + 1) inner @ [jump_command (- 1)]"
    by (simp add: c2 cl1 len1 list_update_append nth_append jump_command_def length_emit)
  have len2: "length (commandList c2) = ?off + 2 + ?s" using cl2 by (simp add: length_emit)
  note ih2 = 3(2)[OF r1 wc r2 d(2)]
  have A: "commandList c' = commandList c @ emit ?off (Root cnt inner # ds)"
    using ih2 cl2 len2 by simp
  have B: "rootList c' = rootList c @ roots_of (Root cnt inner # ds)"
    using ih2 ih1 by (simp add: c2 window_open_eq)
  have C: "containerStack c' = containerStack c \<and> clipStack c' = clipStack c \<and>
     idStack c' = idStack c \<and> layoutStack c' = layoutStack c"
    using ih2 ih1 by (simp add: c2 window_open_eq)
  have D: "\<forall>p. p \<notin> set (roots_of (Root cnt inner # ds)) \<longrightarrow> containers c' p = containers c p"
    using ih2 ih1 by (simp add: c2 window_open_eq)
  have E: "\<forall>p. ZIndex (containers c' p) = ZIndex (containers c p)"
    using ih2 ih1 by (simp add: c2 window_open_eq)
  have F: "\<forall>(p, h, t, b) \<in> set (spans ?off (Root cnt inner # ds)).
         HeadIdx (containers c' p) = int h \<and> TailIdx (containers c' p) = int t"
  proof (clarify)
    fix p h t b assume m: "(p, h, t, b) \<in> set (spans ?off (Root cnt inner # ds))"
    then consider
      (hd) "p = cnt" "h = ?off" "t = ?off + 1 + ?s"
      | (inn) "(p, h, t, b) \<in> set (spans (?off + 1) inner)"
      | (rest) "(p, h, t, b) \<in> set (spans (?off + 2 + ?s) ds)"
      by auto
    then show "HeadIdx (containers c' p) = int h \<and> TailIdx (containers c' p) = int t"
    proof cases
      case hd
      have "containers c' cnt = containers c2 cnt" using ih2 d(4) by simp
      then show ?thesis using hd h1 len1 by (simp add: c2)
    next
      case inn
      then have pin: "p \<in> set (roots_of inner)"
        using spans_roots[of "?off + 1" inner] by (metis fst_conv image_eqI set_map)
      then have pn: "p \<noteq> cnt" "p \<notin> set (roots_of ds)" using d by auto
      have "HeadIdx (containers c1 p) = int h \<and> TailIdx (containers c1 p) = int t"
        using ih1 inn lo by auto
      moreover have "containers c' p = containers c2 p" using ih2 pn by simp
      moreover have "containers c2 p = containers c1 p" using pn by (simp add: c2)
      ultimately show ?thesis by simp
    next
      case rest
      then show ?thesis using ih2 len2 by auto
    qed
  qed
  show ?case using A B C D E F by blast
qed

lemma prim_not_jump: "cmd_typ (prim_command p) \<noteq> commandJump"
  by (cases p) (simp_all add: prim_command_def)

lemma replay_end: "replay cs (length cs) = Some []"
  by (subst replay.simps) simp

lemma replay_jump:
  "pc < length cs \<Longrightarrow> cmd_typ (cs ! pc) = commandJump \<Longrightarrow> 0 \<le> dstIdx (cs ! pc)
     \<Longrightarrow> replay cs pc = replay cs (nat (dstIdx (cs ! pc)))"
  by (subst replay.simps) simp

lemma replay_draw:
  "pc < length cs \<Longrightarrow> cmd_typ (cs ! pc) \<noteq> commandJump
     \<Longrightarrow> replay cs pc = Option.bind (replay cs (pc + 1)) (\<lambda>vs. Some (cs ! pc # vs))"
  by (subst replay.simps) simp

lemma replay_walk:
  "\<forall>k < size_decls ds. emit off ds ! k \<noteq> jump_command (- 1) \<longrightarrow> cs ! (off + k) = emit off ds ! k
     \<Longrightarrow> off + size_decls ds \<le> length cs
     \<Longrightarrow> replay cs off
           = Option.bind (replay cs (off + size_decls ds)) (\<lambda>vs. Some (direct ds @ vs))"
proof (induction off ds rule: emit.induct)
  case (1 off)
  then show ?case by simp
next
  case (2 off p ds)
  have ne: "prim_command p \<noteq> jump_command (- 1)"
    using prim_not_jump[of p] by (auto simp: jump_command_def)
  from 2(2) ne have c0: "cs ! off = prim_command p" by fastforce
  have lt: "off < length cs" using 2(3) by simp
  have hyp: "\<forall>k < size_decls ds. emit (off + 1) ds ! k \<noteq> jump_command (- 1)
               \<longrightarrow> cs ! (off + 1 + k) = emit (off + 1) ds ! k"
  proof (intro allI impI)
    fix k assume k: "k < size_decls ds" "emit (off + 1) ds ! k \<noteq> jump_command (- 1)"
    then have "Suc k < size_decls (Emit p # ds)"
      "emit off (Emit p # ds) ! Suc k \<noteq> jump_command (- 1)" by simp_all
    with 2(2) have "cs ! (off + Suc k) = emit off (Emit p # ds) ! Suc k" by blast
    then show "cs ! (off + 1 + k) = emit (off + 1) ds ! k" by simp
  qed
  have ih: "replay cs (off + 1)
      = Option.bind (replay cs (off + 1 + size_decls ds)) (\<lambda>vs. Some (direct ds @ vs))"
    using 2(1)[OF hyp] 2(3) by simp
  have "replay cs off = Option.bind (replay cs (off + 1)) (\<lambda>vs. Some (prim_command p # vs))"
    using replay_draw[OF lt] c0 prim_not_jump[of p] by simp
  then show ?case using ih by (simp add: add.assoc)
next
  case (3 off cnt inner ds)
  let ?s = "size_decls inner"
  have ne: "jump_command (int (off + 2 + ?s)) \<noteq> jump_command (- 1)"
    by (simp add: jump_command_def)
  from 3(3) ne have c0: "cs ! off = jump_command (int (off + 2 + ?s))" by fastforce
  have lt: "off < length cs" using 3(4) by simp
  have hyp: "\<forall>k < size_decls ds. emit (off + 2 + ?s) ds ! k \<noteq> jump_command (- 1)
               \<longrightarrow> cs ! (off + 2 + ?s + k) = emit (off + 2 + ?s) ds ! k"
  proof (intro allI impI)
    fix k assume k: "k < size_decls ds" "emit (off + 2 + ?s) ds ! k \<noteq> jump_command (- 1)"
    have e: "emit off (Root cnt inner # ds) ! (Suc (?s + Suc k)) = emit (off + 2 + ?s) ds ! k"
      by (simp add: nth_append length_emit)
    have "Suc (?s + Suc k) < size_decls (Root cnt inner # ds)" using k by simp
    with 3(3) e k(2) have "cs ! (off + Suc (?s + Suc k)) = emit (off + 2 + ?s) ds ! k"
      by metis
    then show "cs ! (off + 2 + ?s + k) = emit (off + 2 + ?s) ds ! k"
      by (simp add: add.commute add.left_commute)
  qed
  have ih: "replay cs (off + 2 + ?s)
      = Option.bind (replay cs (off + 2 + ?s + size_decls ds)) (\<lambda>vs. Some (direct ds @ vs))"
    using 3(2)[OF hyp] 3(4) by simp
  have d: "cmd_typ (cs ! off) = commandJump" "dstIdx (cs ! off) = int (off + 2 + ?s)"
    unfolding c0 jump_command_def by simp_all
  have n: "nat (dstIdx (cs ! off)) = off + 2 + ?s" by (simp only: d nat_int)
  have "replay cs off = replay cs (off + 2 + ?s)"
    using replay_jump[OF lt d(1)] d(2) n by simp
  then show ?case using ih by (simp add: add.assoc add.commute add.left_commute)
qed

lemma patch_loop_all:
  assumes ne: "rs \<noteq> []" and dist: "distinct (map TailIdx rs)" and tok: "tails_ok rs cmds"
    and pos: "\<forall>r \<in> set rs. 0 < TailIdx r"
    and first: "cmds \<noteq> []" "cmd_typ (cmds ! 0) = commandJump"
       "add64 (HeadIdx (rs ! 0)) 1 < commandListSize"
  shows "\<exists>cmds'. patch_loop rs 0 cmds = Inr cmds' \<and> length cmds' = length cmds \<and>
           cmds' ! 0 = (cmds ! 0)\<lparr>dstIdx := add64 (HeadIdx (rs ! 0)) 1\<rparr> \<and>
           (\<forall>j < length rs. cmds' ! nat (TailIdx (rs ! j)) =
               (cmds ! nat (TailIdx (rs ! j)))\<lparr>dstIdx := jump_target rs (int (length cmds)) j\<rparr>) \<and>
           (\<forall>k. k \<noteq> 0 \<and> (\<forall>j < length rs. k \<noteq> nat (TailIdx (rs ! j))) \<longrightarrow> cmds' ! k = cmds ! k)"
proof -
  let ?n = "length rs"
  let ?T = "\<lambda>j. nat (TailIdx (rs ! j))"
  define cmds1 where "cmds1 = cmds[0 := (cmds ! 0)\<lparr>dstIdx := add64 (HeadIdx (rs ! 0)) 1\<rparr>]"
  have pf: "patch_first (rs ! 0) cmds = Inr cmds1"
    using first by (simp add: patch_first_def cmds1_def)
  have l1: "length cmds1 = length cmds" by (simp add: cmds1_def)
  have n0: "0 < ?n" using ne by simp
  have Tpos: "\<And>j. j < ?n \<Longrightarrow> 0 < ?T j \<and> ?T j < length cmds"
    using pos tok by (simp add: tails_ok_def nat_less_iff)
  have t1: "tails_ok rs cmds1" using tok by (simp add: cmds1_def tails_ok_upd)
  show ?thesis
  proof (cases "?n = 1")
    case True
    define cmds2 where "cmds2 = cmds1[?T 0 := (cmds1 ! ?T 0)\<lparr>dstIdx := int (length cmds1)\<rparr>]"
    have rng: "0 \<le> TailIdx (rs ! 0) \<and> TailIdx (rs ! 0) < int (length cmds1)"
      using tok n0 l1 by (simp add: tails_ok_def)
    have s2: "set_dst (TailIdx (rs ! 0)) (int (length cmds1)) cmds1 = Inr cmds2"
      using rng by (simp add: set_dst_ok cmds2_def)
    have res: "patch_loop rs 0 cmds = Inr cmds2"
      using True pf s2 by (subst patch_loop.simps) (simp add: Let_def patch_loop_end)
    have jt: "jump_target rs (int (length cmds)) 0 = int (length cmds)"
      using True by (simp add: jump_target_def)
    have T0: "0 < ?T 0" "?T 0 < length cmds" using Tpos[of 0] n0 by auto
    have a: "cmds2 ! 0 = (cmds ! 0)\<lparr>dstIdx := add64 (HeadIdx (rs ! 0)) 1\<rparr>"
      using T0 first(1) by (simp add: cmds2_def cmds1_def)
    have b: "\<forall>j < ?n. cmds2 ! ?T j = (cmds ! ?T j)\<lparr>dstIdx := jump_target rs (int (length cmds)) j\<rparr>"
      using True T0 jt l1 by (simp add: cmds2_def cmds1_def)
    have c: "\<forall>k. k \<noteq> 0 \<and> (\<forall>j < ?n. k \<noteq> ?T j) \<longrightarrow> cmds2 ! k = cmds ! k"
      using True by (simp add: cmds2_def cmds1_def)
    show ?thesis using res a b c l1 by (simp add: cmds2_def)
  next
    case False
    then have n2: "1 < ?n" using n0 by linarith
    from patch_loop_tail[OF dist t1 _ n2]
    obtain cmds' where r: "patch_loop rs 1 cmds1 = Inr cmds'" "length cmds' = length cmds1"
      "\<forall>j. 0 \<le> j \<and> j < ?n \<longrightarrow>
          cmds' ! ?T j = (cmds1 ! ?T j)\<lparr>dstIdx := jump_target rs (int (length cmds1)) j\<rparr>"
      "\<forall>k. (\<forall>j. 0 \<le> j \<and> j < ?n \<longrightarrow> k \<noteq> ?T j) \<longrightarrow> cmds' ! k = cmds1 ! k"
      by auto
    have res: "patch_loop rs 0 cmds = Inr cmds'"
      using n2 ne pf r(1) by (subst patch_loop.simps) (simp add: Let_def)
    have z: "\<forall>j. 0 \<le> j \<and> j < ?n \<longrightarrow> 0 \<noteq> ?T j" using Tpos by fastforce
    have a: "cmds' ! 0 = (cmds ! 0)\<lparr>dstIdx := add64 (HeadIdx (rs ! 0)) 1\<rparr>"
      using r(4) z first(1) by (simp add: cmds1_def)
    have b: "\<forall>j < ?n. cmds' ! ?T j = (cmds ! ?T j)\<lparr>dstIdx := jump_target rs (int (length cmds)) j\<rparr>"
    proof (intro allI impI)
      fix j assume j: "j < ?n"
      have "cmds1 ! ?T j = cmds ! ?T j" using Tpos[OF j] by (simp add: cmds1_def)
      then show "cmds' ! ?T j = (cmds ! ?T j)\<lparr>dstIdx := jump_target rs (int (length cmds)) j\<rparr>"
        using r(3) j l1 by simp
    qed
    have c: "\<forall>k. k \<noteq> 0 \<and> (\<forall>j < ?n. k \<noteq> ?T j) \<longrightarrow> cmds' ! k = cmds ! k"
    proof (intro allI impI)
      fix k assume k: "k \<noteq> 0 \<and> (\<forall>j < ?n. k \<noteq> ?T j)"
      then have "cmds' ! k = cmds1 ! k" using r(4) by simp
      then show "cmds' ! k = cmds ! k" using k by (simp add: cmds1_def)
    qed
    show ?thesis using res a b c r(2) l1 by simp
  qed
qed

end
